theory Spec2Isabelle
  imports Main "HOL-Library.Word"
begin

section \<open>Navigation actions of chromedp (nav.go): the data\<close>

text \<open>
  The protocol types that nav.go reads. \<open>cdp.FrameID\<close> is a string; of \<open>cdp.Frame\<close>
  and \<open>page.NavigationEntry\<close> only the fields the file touches are kept. The entry's
  identifier is the field \<open>ID\<close> in Go; it is \<open>EntryID\<close> here, since a record field is a
  constant and \<open>ID\<close> is already the frame's.
\<close>

type_synonym FrameID = string

record Frame =
  ID :: FrameID

record NavigationEntry =
  EntryID :: "64 word"
  URL :: string
  Title :: string

record EventLifecycleEvent =
  FrameID :: FrameID
  LoaderID :: string
  Name :: string

text \<open>
  An event is an \<open>interface{}\<close> value: either a \<open>*page.EventLifecycleEvent\<close> or a value
  of some other type, kept by its type name.
\<close>

datatype event = Lifecycle EventLifecycleEvent | OtherEvent string

text \<open>
  Go \<open>error\<close> values: the two termination errors of a context and an \<open>errors.New\<close>
  value, identified by its message.
\<close>

datatype error = Canceled | DeadlineExceeded | ErrorString string

text \<open>
  The executor stored in a context is a \<open>*Target\<close> or something else (nil, a browser):
  the type assertion of \<open>navigatedFrameID\<close> tells the two apart. The values of a
  context never change; its cancellation does, and lives in the world below.
\<close>

datatype executor = TargetExecutor | OtherExecutor

record "context" =
  executor :: executor

text \<open>
  The two fields of \<open>Target\<close> that nav.go reads. \<open>curMu\<close> is a \<open>sync.RWMutex\<close>, modelled
  by the number of read holds outstanding. \<open>RLock\<close> is modelled where it is granted;
  a reader queued behind a waiting writer is outside the model.
\<close>

record Target =
  cur :: "Frame option"
  curMu :: int

definition RLock :: "int \<Rightarrow> int" where
  "RLock readers = readers + 1"

definition RUnlock :: "int \<Rightarrow> int" where
  "RUnlock readers = readers - 1"

section \<open>The frame identity and the lifecycle predicate\<close>

text \<open>
  \<open>navigatedFrameID\<close> (nav.go 191-203), with the target passed in and returned: the
  type assertion, the read lock, the nil test (which returns with the lock held) and the
  unlock before the last return.
\<close>

definition navigatedFrameID :: "context \<Rightarrow> Target \<Rightarrow> FrameID \<times> Target" where
  "navigatedFrameID ctx target =
     (case executor ctx of
        OtherExecutor \<Rightarrow> ('''', target)
      | TargetExecutor \<Rightarrow>
          (let locked = target\<lparr>curMu := RLock (curMu target)\<rparr>
           in case cur locked of
                None \<Rightarrow> ('''', locked)
              | Some frame \<Rightarrow> (ID frame, locked\<lparr>curMu := RUnlock (curMu locked)\<rparr>)))"

text \<open>
  \<open>isExpectedEvent\<close>: a predicate on events. The one nav.go builds reads the target
  under its lock, so a predicate takes the target and returns it.
\<close>

type_synonym isExpectedEvent = "event \<Rightarrow> Target \<Rightarrow> bool \<times> Target"

text \<open>
  The closure \<open>is\<close> of \<open>expectLifecycleEvent\<close> (nav.go 176-183). \<open>&&\<close> evaluates
  its right operand, the call of \<open>navigatedFrameID\<close>, only when the names are equal.
\<close>

definition isLifecycle :: "context \<Rightarrow> string \<Rightarrow> isExpectedEvent" where
  "isLifecycle r name i target =
     (case i of
        OtherEvent _ \<Rightarrow> (False, target)
      | Lifecycle e \<Rightarrow>
          if Name e = name
          then (let (id, target') = navigatedFrameID r target in (FrameID e = id, target'))
          else (False, target))"

section \<open>The world of a barrier\<close>

text \<open>
  What a call of nav.go leaves behind, in the order it happens: a command issued, a
  listener registered, a wait begun, a call of \<open>release\<close>, a channel closed.
\<close>

datatype command =
    CmdNavigate string
  | CmdGetNavigationHistory
  | CmdNavigateToHistoryEntry "64 word"
  | CmdReload

datatype effect =
    EIssue command
  | ERegister nat
  | EWait nat
  | ERelease nat
  | EClose nat

text \<open>
  The closure \<open>listen\<close> of \<open>expectEvent\<close> by its captured variables: the predicate,
  the channel \<open>ok\<close> and the cancel function \<open>release\<close>. Channels and listener contexts
  are named by their position in the world's stores.
\<close>

record listen_closure =
  is_of :: isExpectedEvent
  ok_of :: nat
  release_of :: nat

record cancelableListener =
  l_ctx :: nat
  l_fn :: listen_closure

text \<open>
  The state shared by the caller, the event bus and the owner of the governing context:
  \<^item> \<open>target\<close>: the target the executor of the context points to;
  \<^item> \<open>r_err\<close>: \<open>r.Err()\<close> of the governing context, \<open>None\<close> while it is live;
  \<^item> \<open>chans\<close>: for every channel made, whether it is closed;
  \<^item> \<open>scopes\<close>: for every context derived with \<open>context.WithCancel(r)\<close>, whether its
    cancel function has been called;
  \<^item> \<open>listeners\<close>: the listeners registered on the event bus;
  \<^item> \<open>int64s\<close>, \<open>entry_slices\<close>: the variables that output pointers point to;
  \<^item> \<open>trace\<close>: the effects so far;
  \<^item> \<open>panicked\<close>: the panic that ended the process, if any.
\<close>

record world =
  target :: Target
  r_err :: "error option"
  chans :: "bool list"
  scopes :: "bool list"
  listeners :: "cancelableListener list"
  int64s :: "nat \<Rightarrow> 64 word option"
  entry_slices :: "nat \<Rightarrow> NavigationEntry option list option"
  trace :: "effect list"
  panicked :: "string option"

definition init_world :: "Target \<Rightarrow> error option \<Rightarrow> world" where
  "init_world t e =
     \<lparr>target = t, r_err = e, chans = [], scopes = [], listeners = [],
      int64s = (\<lambda>_. None), entry_slices = (\<lambda>_. None), trace = [], panicked = None\<rparr>"

definition emit :: "effect \<Rightarrow> world \<Rightarrow> world" where
  "emit e w = w\<lparr>trace := trace w @ [e]\<rparr>"

text \<open>\<open>make(chan struct{})\<close>: a new open channel.\<close>

definition make_chan :: "world \<Rightarrow> nat \<times> world" where
  "make_chan w = (length (chans w), w\<lparr>chans := chans w @ [False]\<rparr>)"

definition chan_closed :: "nat \<Rightarrow> world \<Rightarrow> bool" where
  "chan_closed c w = (c < length (chans w) \<and> chans w ! c)"

text \<open>
  \<open>close(ok)\<close>: closing a channel that is closed already (or that was never made) is a
  panic in Go.
\<close>

definition close_chan :: "nat \<Rightarrow> world \<Rightarrow> world" where
  "close_chan c w =
     (if c < length (chans w) \<and> \<not> chans w ! c
      then emit (EClose c) (w\<lparr>chans := (chans w)[c := True]\<rparr>)
      else w\<lparr>panicked := Some ''close of closed channel''\<rparr>)"

text \<open>
  \<open>context.WithCancel(r)\<close>: a child of the governing context. It is done when its
  cancel function has been called or when \<open>r\<close> is done. The cancel function may be
  called any number of times.
\<close>

definition WithCancel :: "world \<Rightarrow> nat \<times> world" where
  "WithCancel w = (length (scopes w), w\<lparr>scopes := scopes w @ [False]\<rparr>)"

definition ctx_done :: "nat \<Rightarrow> world \<Rightarrow> bool" where
  "ctx_done s w = (r_err w \<noteq> None \<or> (s < length (scopes w) \<and> scopes w ! s))"

definition release :: "nat \<Rightarrow> world \<Rightarrow> world" where
  "release s w = emit (ERelease s) (w\<lparr>scopes := (scopes w)[s := True]\<rparr>)"

text \<open>The closure \<open>listen\<close> (nav.go 157-162).\<close>

definition listen :: "listen_closure \<Rightarrow> event \<Rightarrow> world \<Rightarrow> world" where
  "listen h i w =
     (let (matched, target') = is_of h i (target w);
          w1 = w\<lparr>target := target'\<rparr>
      in if matched
         then (let w2 = close_chan (ok_of h) w1
               in if panicked w2 \<noteq> None then w2 else release (release_of h) w2)
         else w1)"

text \<open>
  Modelled from the spec: \<open>ListenTarget\<close>, the subscription call of the event bus, is
  not in nav.go. Section 6: \<open>subscribe(scope, handler)\<close> accepts the registration
  synchronously, so the listener is on the bus when the call returns.
\<close>

definition ListenTarget :: "nat \<Rightarrow> listen_closure \<Rightarrow> world \<Rightarrow> world" where
  "ListenTarget s h w =
     emit (ERegister s) (w\<lparr>listeners := listeners w @ [\<lparr>l_ctx = s, l_fn = h\<rparr>]\<rparr>)"

text \<open>
  Modelled from the spec: the dispatcher of the event bus is not in nav.go. Section 6:
  every event observed on the target is delivered to \<open>handler\<close> until \<open>scope\<close> is
  canceled; section 5: one dispatcher delivers each event to a listener at most once, in
  the order received. A listener whose context is done is passed over; a panic in a
  handler ends the delivery.
\<close>

fun runListeners :: "cancelableListener list \<Rightarrow> event \<Rightarrow> world \<Rightarrow> world" where
  "runListeners [] ev w = w"
| "runListeners (l # ls) ev w =
     (if panicked w \<noteq> None then w
      else if ctx_done (l_ctx l) w then runListeners ls ev w
      else runListeners ls ev (listen (l_fn l) ev w))"

definition dispatch :: "event \<Rightarrow> world \<Rightarrow> world" where
  "dispatch ev w = runListeners (listeners w) ev w"

text \<open>
  Modelled from the spec: the writer of the target's current frame is not in nav.go.
  Section 5: a single writer elsewhere holds the write lock when it updates the field. A
  write lock is granted only while no read hold is outstanding; a writer that finds one
  waits, and the field stays as it is.
\<close>

definition write_cur :: "Frame option \<Rightarrow> world \<Rightarrow> world" where
  "write_cur f w =
     (if curMu (target w) = 0 then w\<lparr>target := (target w)\<lparr>cur := f\<rparr>\<rparr> else w)"

text \<open>
  What happens around the caller while it runs or blocks: the bus delivers an event, the
  governing context is canceled or expires (the first termination error stays), the
  target's writer replaces the current frame. Nothing happens in a process that has
  panicked.
\<close>

datatype env_action = Deliver event | Cancel error | SetCur "Frame option"

definition env_step :: "env_action \<Rightarrow> world \<Rightarrow> world" where
  "env_step a w =
     (if panicked w \<noteq> None then w
      else case a of
        Deliver ev \<Rightarrow> dispatch ev w
      | Cancel e \<Rightarrow> (if r_err w = None then w\<lparr>r_err := Some e\<rparr> else w)
      | SetCur f \<Rightarrow> write_cur f w)"

fun run_env :: "env_action list \<Rightarrow> world \<Rightarrow> world" where
  "run_env [] w = w"
| "run_env (a # as) w = run_env as (env_step a w)"

section \<open>The barrier\<close>

text \<open>
  \<open>expectEvent\<close> (nav.go 154-173) returns two closures: \<open>expect\<close>, which captures
  the channel \<open>ok\<close> (and \<open>r\<close>), and \<open>release\<close>, the cancel function of the listener
  context. The pair of the two captured names stands for the pair of closures.
\<close>

record barrier =
  b_ok :: nat
  b_release :: nat

definition expectEvent :: "isExpectedEvent \<Rightarrow> world \<Rightarrow> barrier \<times> world" where
  "expectEvent is w =
     (let (ok, w1) = make_chan w;
          (listener, w2) = WithCancel w1;
          w3 = ListenTarget listener \<lparr>is_of = is, ok_of = ok, release_of = listener\<rparr> w2
      in (\<lparr>b_ok = ok, b_release = listener\<rparr>, w3))"

definition expectLifecycleEvent :: "context \<Rightarrow> string \<Rightarrow> world \<Rightarrow> barrier \<times> world" where
  "expectLifecycleEvent r name w = expectEvent (isLifecycle r name) w"

definition expectLifecycleLoaded :: "context \<Rightarrow> world \<Rightarrow> barrier \<times> world" where
  "expectLifecycleLoaded r w = expectLifecycleEvent r ''load'' w"

text \<open>
  The outcome of a blocking call: it returns an error or nil, it never returns, or the
  process panics.
\<close>

datatype outcome = Returned "error option" | Blocked | Panicked string

text \<open>
  The \<open>select\<close> of the closure \<open>expect\<close> (nav.go 165-170), taken in one world: a
  receive from a closed channel is ready, \<open>r.Done()\<close> is ready once \<open>r\<close> has
  a termination error, and when both are ready Go picks one of them (\<open>pick_ok\<close> says
  which). With neither ready the select blocks.
\<close>

definition select_ok_done :: "nat \<Rightarrow> bool \<Rightarrow> world \<Rightarrow> error option option" where
  "select_ok_done ok pick_ok w =
     (if chan_closed ok w
      then (if r_err w \<noteq> None \<and> \<not> pick_ok then Some (r_err w) else Some None)
      else (case r_err w of Some e \<Rightarrow> Some (Some e) | None \<Rightarrow> None))"

text \<open>
  The closure \<open>expect\<close>: while it blocks the environment goes on (\<open>acts\<close>), and it
  returns through the \<open>select\<close> in the world the environment has reached then. When
  that world has neither case ready and the environment does nothing more, the call
  never returns.
\<close>

definition expect :: "barrier \<Rightarrow> env_action list \<Rightarrow> bool \<Rightarrow> world \<Rightarrow> outcome \<times> world" where
  "expect b acts pick_ok w =
     (let w1 = run_env acts (emit (EWait (b_ok b)) w)
      in case panicked w1 of
           Some msg \<Rightarrow> (Panicked msg, w1)
         | None \<Rightarrow>
             (case select_ok_done (b_ok b) pick_ok w1 of
                Some res \<Rightarrow> (Returned res, w1)
              | None \<Rightarrow> (Blocked, w1)))"

section \<open>The navigation actions\<close>

text \<open>
  A protocol command is answered by the browser: what the environment does until the
  acknowledgment arrives, and the acknowledgment. \<open>GetNavigationHistory\<close> also returns
  the current index and the entries, a slice of pointers (a pointer may be nil).
\<close>

record cmd_reply =
  during :: "env_action list"
  err :: "error option"

record history_reply = cmd_reply +
  currentIndex :: "64 word"
  entries :: "NavigationEntry option list"

record wait_script =
  while_blocked :: "env_action list"
  picks_ok :: bool

text \<open>\<open>.Do(ctx)\<close>: the command goes out, then the caller waits for its reply.\<close>

definition Do :: "command \<Rightarrow> env_action list \<Rightarrow> world \<Rightarrow> world" where
  "Do c acts w = run_env acts (emit (EIssue c) w)"

text \<open>
  \<open>return expect()\<close> under \<open>defer release()\<close>: the deferred call runs when the
  function returns.
\<close>

definition return_expect :: "barrier \<Rightarrow> wait_script \<Rightarrow> world \<Rightarrow> outcome \<times> world" where
  "return_expect b ws w =
     (let (out, w1) = expect b (while_blocked ws) (picks_ok ws) w
      in case out of
           Returned res \<Rightarrow> (Returned res, release (b_release b) w1)
         | Blocked \<Rightarrow> (Blocked, w1)
         | Panicked msg \<Rightarrow> (Panicked msg, w1))"

text \<open>
  The body shared by the actions once the barrier is armed and \<open>release\<close> deferred
  (nav.go 19-23, 47-50, 69-72, 91-94, 103-106): issue the command, return its error if
  it has one, else return \<open>expect()\<close>.
\<close>

definition do_then_expect ::
    "barrier \<Rightarrow> command \<Rightarrow> ('a cmd_reply_scheme) \<Rightarrow> wait_script \<Rightarrow> world \<Rightarrow> outcome \<times> world" where
  "do_then_expect b c reply ws w =
     (let w1 = Do c (during reply) w
      in case panicked w1 of
           Some msg \<Rightarrow> (Panicked msg, w1)
         | None \<Rightarrow>
             (case err reply of
                Some e \<Rightarrow> (Returned (Some e), release (b_release b) w1)
              | None \<Rightarrow> return_expect b ws w1))"

text \<open>
  \<open>Navigate\<close> (nav.go 15-25), \<open>NavigateToHistoryEntry\<close> (nav.go 43-52) and
  \<open>Reload\<close> (nav.go 99-108). Line 19 assigns the command's error to \<open>err\<close> with
  \<open>=\<close> where the sibling actions declare it with \<open>:=\<close>; it is read here as they
  have it, the error of this call.
\<close>

definition Navigate ::
    "string \<Rightarrow> context \<Rightarrow> cmd_reply \<Rightarrow> wait_script \<Rightarrow> world \<Rightarrow> outcome \<times> world" where
  "Navigate urlstr ctx reply ws w =
     (let (b, w1) = expectLifecycleLoaded ctx w
      in do_then_expect b (CmdNavigate urlstr) reply ws w1)"

definition NavigateToHistoryEntry ::
    "64 word \<Rightarrow> context \<Rightarrow> cmd_reply \<Rightarrow> wait_script \<Rightarrow> world \<Rightarrow> outcome \<times> world" where
  "NavigateToHistoryEntry entryID ctx reply ws w =
     (let (b, w1) = expectLifecycleLoaded ctx w
      in do_then_expect b (CmdNavigateToHistoryEntry entryID) reply ws w1)"

definition Reload :: "context \<Rightarrow> cmd_reply \<Rightarrow> wait_script \<Rightarrow> world \<Rightarrow> outcome \<times> world" where
  "Reload ctx reply ws w =
     (let (b, w1) = expectLifecycleLoaded ctx w
      in do_then_expect b CmdReload reply ws w1)"

text \<open>
  \<open>entries[i].ID\<close> for an \<open>int64\<close> index: Go panics when the index is out of range
  and when the pointer at that index is nil.
\<close>

definition entry_id_at :: "NavigationEntry option list \<Rightarrow> 64 word \<Rightarrow> string + 64 word" where
  "entry_id_at es i =
     (if 0 \<le> sint i \<and> sint i < int (length es)
      then (case es ! nat (sint i) of
              None \<Rightarrow> Inl ''invalid memory address or nil pointer dereference''
            | Some e \<Rightarrow> Inr (EntryID e))
      else Inl ''index out of range'')"

text \<open>
  \<open>NavigateBack\<close> (nav.go 56-74) and \<open>NavigateForward\<close> (nav.go 78-96). \<open>len\<close> is an
  \<open>int\<close>, so \<open>len(entries)-1\<close> is \<open>-1\<close> for an empty slice.
\<close>

definition NavigateBack ::
    "context \<Rightarrow> history_reply \<Rightarrow> cmd_reply \<Rightarrow> wait_script \<Rightarrow> world \<Rightarrow> outcome \<times> world" where
  "NavigateBack ctx hist reply ws w =
     (let w1 = Do CmdGetNavigationHistory (during hist) w
      in case panicked w1 of
           Some msg \<Rightarrow> (Panicked msg, w1)
         | None \<Rightarrow>
             (case err hist of
                Some e \<Rightarrow> (Returned (Some e), w1)
              | None \<Rightarrow>
                  if sint (currentIndex hist) \<le> 0
                     \<or> sint (currentIndex hist) > int (length (entries hist)) - 1
                  then (Returned (Some (ErrorString ''invalid navigation entry'')), w1)
                  else
                    (let (b, w2) = expectLifecycleLoaded ctx w1
                     in case entry_id_at (entries hist) (currentIndex hist - 1) of
                          Inl msg \<Rightarrow> (Panicked msg, release (b_release b) w2)
                        | Inr entryID \<Rightarrow>
                            do_then_expect b (CmdNavigateToHistoryEntry entryID) reply ws w2)))"

definition NavigateForward ::
    "context \<Rightarrow> history_reply \<Rightarrow> cmd_reply \<Rightarrow> wait_script \<Rightarrow> world \<Rightarrow> outcome \<times> world" where
  "NavigateForward ctx hist reply ws w =
     (let w1 = Do CmdGetNavigationHistory (during hist) w
      in case panicked w1 of
           Some msg \<Rightarrow> (Panicked msg, w1)
         | None \<Rightarrow>
             (case err hist of
                Some e \<Rightarrow> (Returned (Some e), w1)
              | None \<Rightarrow>
                  if sint (currentIndex hist) < 0
                     \<or> sint (currentIndex hist) \<ge> int (length (entries hist)) - 1
                  then (Returned (Some (ErrorString ''invalid navigation entry'')), w1)
                  else
                    (let (b, w2) = expectLifecycleLoaded ctx w1
                     in case entry_id_at (entries hist) (currentIndex hist + 1) of
                          Inl msg \<Rightarrow> (Panicked msg, release (b_release b) w2)
                        | Inr entryID \<Rightarrow>
                            do_then_expect b (CmdNavigateToHistoryEntry entryID) reply ws w2)))"

text \<open>
  \<open>NavigationEntries\<close> (nav.go 29-39): the nil test runs when the action is built, the
  command and the two assignments when it is run. A pointer is \<open>None\<close> (nil) or the
  name of a variable. The assignment stores whatever the command returned.
\<close>

definition NavigationEntries ::
    "nat option \<Rightarrow> nat option \<Rightarrow>
     string + (context \<Rightarrow> history_reply \<Rightarrow> world \<Rightarrow> outcome \<times> world)" where
  "NavigationEntries currentIndex_ptr entries_ptr =
     (case currentIndex_ptr of
        None \<Rightarrow> Inl ''currentIndex and entries cannot be nil''
      | Some ci \<Rightarrow>
          (case entries_ptr of
             None \<Rightarrow> Inl ''currentIndex and entries cannot be nil''
           | Some en \<Rightarrow>
               Inr (\<lambda>ctx hist w.
                 let w1 = Do CmdGetNavigationHistory (during hist) w
                 in case panicked w1 of
                      Some msg \<Rightarrow> (Panicked msg, w1)
                    | None \<Rightarrow>
                        (Returned (err hist),
                         w1\<lparr>int64s := (int64s w1)(ci := Some (currentIndex hist)),
                            entry_slices := (entry_slices w1)(en := Some (entries hist))\<rparr>))))"

section \<open>Runs\<close>

text \<open>
  Everything that can touch a barrier: some caller arms one, some caller calls a
  \<open>release\<close>, the environment moves. A run is a list of such steps.
\<close>

datatype action = Arm isExpectedEvent | Release nat | Env env_action

definition step :: "action \<Rightarrow> world \<Rightarrow> world" where
  "step a w =
     (if panicked w \<noteq> None then w
      else case a of
        Arm is \<Rightarrow> snd (expectEvent is w)
      | Release s \<Rightarrow> release s w
      | Env e \<Rightarrow> env_step e w)"

fun exec :: "action list \<Rightarrow> world \<Rightarrow> world" where
  "exec [] w = w"
| "exec (a # as) w = exec as (step a w)"

text \<open>
  The bus, delivering \<open>ev\<close> in world \<open>w\<close>, reaches listener number \<open>n\<close> while that
  listener is subscribed, and the listener's predicate returns true there.
\<close>

definition matched_at :: "nat \<Rightarrow> isExpectedEvent \<Rightarrow> event \<Rightarrow> world \<Rightarrow> bool" where
  "matched_at n is ev w =
     (let wb = runListeners (take n (listeners w)) ev w
      in panicked wb = None \<and> \<not> ctx_done n wb \<and> fst (is ev (target wb)))"

text \<open>
  The worlds that arming, releasing and the environment can produce: every listener was
  registered by \<open>expectEvent\<close>, so listener number \<open>i\<close> owns channel \<open>i\<close> and
  listener context \<open>i\<close>; a closed channel has its listener context canceled, since the
  listener cancels it right after the close; the trace holds one \<open>EClose i\<close> for a closed
  channel and none for an open one; the process has not panicked.
\<close>

fun closes :: "effect list \<Rightarrow> nat list" where
  "closes [] = []"
| "closes (EClose k # es) = k # closes es"
| "closes (_ # es) = closes es"

definition wf_listener :: "world \<Rightarrow> nat \<Rightarrow> bool" where
  "wf_listener w i =
     (l_ctx (listeners w ! i) = i \<and> ok_of (l_fn (listeners w ! i)) = i
      \<and> release_of (l_fn (listeners w ! i)) = i
      \<and> (if chans w ! i then scopes w ! i \<and> count_list (closes (trace w)) i = 1
         else count_list (closes (trace w)) i = 0))"

definition wf_world :: "world \<Rightarrow> bool" where
  "wf_world w =
     (panicked w = None \<and> length (chans w) = length (listeners w)
      \<and> length (scopes w) = length (listeners w)
      \<and> list_all (wf_listener w) [0..<length (listeners w)]
      \<and> list_all (\<lambda>k. k < length (listeners w)) (closes (trace w)))"

text \<open>The commands issued and listeners registered so far, and the waits begun.\<close>

definition calls :: "world \<Rightarrow> effect list" where
  "calls w = filter (\<lambda>e. case e of EIssue _ \<Rightarrow> True | ERegister _ \<Rightarrow> True | _ \<Rightarrow> False) (trace w)"

definition waits :: "world \<Rightarrow> effect list" where
  "waits w = filter (\<lambda>e. case e of EWait _ \<Rightarrow> True | _ \<Rightarrow> False) (trace w)"

text \<open>
  An action, started in \<open>w\<close>, has returned the error \<open>e\<close> without beginning a
  wait, and its last effect was the call of \<open>release\<close> that canceled listener context
  \<open>s\<close>.
\<close>

definition fails_released :: "error \<Rightarrow> nat \<Rightarrow> world \<Rightarrow> outcome \<times> world \<Rightarrow> bool" where
  "fails_released e s w res =
     (fst res = Returned (Some e) \<and> waits (snd res) = waits w
      \<and> s < length (scopes (snd res)) \<and> scopes (snd res) ! s
      \<and> last (trace (snd res)) = ERelease s)"

text \<open>
  The termination error that a list of environment actions gives a live governing
  context: that of its first cancellation.
\<close>

fun first_cancel :: "env_action list \<Rightarrow> error option" where
  "first_cancel [] = None"
| "first_cancel (Cancel e # as) = Some e"
| "first_cancel (_ # as) = first_cancel as"

section \<open>Properties\<close>

subsection \<open>The return paths of \<open>navigatedFrameID\<close>\<close>

lemma navigatedFrameID_other:
  "executor ctx = OtherExecutor \<Longrightarrow> navigatedFrameID ctx tgt = ('''', tgt)"
  by (simp add: navigatedFrameID_def)

lemma navigatedFrameID_frame:
  "executor ctx = TargetExecutor \<Longrightarrow> cur tgt = Some frame \<Longrightarrow>
   navigatedFrameID ctx tgt = (ID frame, tgt)"
  by (simp add: navigatedFrameID_def RLock_def RUnlock_def)

lemma navigatedFrameID_nil:
  "executor ctx = TargetExecutor \<Longrightarrow> cur tgt = None \<Longrightarrow>
   navigatedFrameID ctx tgt = ('''', tgt\<lparr>curMu := curMu tgt + 1\<rparr>)"
  by (simp add: navigatedFrameID_def RLock_def)

lemma navigatedFrameID_cur: "cur (snd (navigatedFrameID ctx tgt)) = cur tgt"
  by (simp add: navigatedFrameID_def Let_def split: executor.splits option.splits)

subsection \<open>What each operation leaves alone\<close>

lemma emit_fields [simp]:
  "target (emit e w) = target w" "r_err (emit e w) = r_err w" "chans (emit e w) = chans w"
  "scopes (emit e w) = scopes w" "listeners (emit e w) = listeners w"
  "int64s (emit e w) = int64s w" "entry_slices (emit e w) = entry_slices w"
  "panicked (emit e w) = panicked w" "trace (emit e w) = trace w @ [e]"
  by (simp_all add: emit_def)

lemma release_fields [simp]:
  "target (release s w) = target w" "r_err (release s w) = r_err w" "chans (release s w) = chans w"
  "scopes (release s w) = (scopes w)[s := True]" "listeners (release s w) = listeners w"
  "int64s (release s w) = int64s w" "entry_slices (release s w) = entry_slices w"
  "panicked (release s w) = panicked w" "trace (release s w) = trace w @ [ERelease s]"
  by (simp_all add: release_def)

lemma close_chan_fields [simp]:
  "target (close_chan c w) = target w" "r_err (close_chan c w) = r_err w"
  "scopes (close_chan c w) = scopes w" "listeners (close_chan c w) = listeners w"
  "int64s (close_chan c w) = int64s w" "entry_slices (close_chan c w) = entry_slices w"
  "length (chans (close_chan c w)) = length (chans w)"
  by (simp_all add: close_chan_def)

lemma listen_fields [simp]:
  "r_err (listen h i w) = r_err w" "listeners (listen h i w) = listeners w"
  "int64s (listen h i w) = int64s w" "entry_slices (listen h i w) = entry_slices w"
  "length (chans (listen h i w)) = length (chans w)"
  "length (scopes (listen h i w)) = length (scopes w)"
  by (simp_all add: listen_def Let_def split: prod.splits)

lemma runListeners_fields [simp]:
  "r_err (runListeners ls ev w) = r_err w" "listeners (runListeners ls ev w) = listeners w"
  "int64s (runListeners ls ev w) = int64s w" "entry_slices (runListeners ls ev w) = entry_slices w"
  "length (chans (runListeners ls ev w)) = length (chans w)"
  "length (scopes (runListeners ls ev w)) = length (scopes w)"
  by (induction ls arbitrary: w; simp)+

lemma env_step_fields [simp]:
  "listeners (env_step a w) = listeners w"
  "int64s (env_step a w) = int64s w" "entry_slices (env_step a w) = entry_slices w"
  "length (chans (env_step a w)) = length (chans w)"
  "length (scopes (env_step a w)) = length (scopes w)"
  by (simp_all add: env_step_def write_cur_def dispatch_def split: env_action.splits)

lemma run_env_fields [simp]:
  "listeners (run_env as w) = listeners w"
  "int64s (run_env as w) = int64s w" "entry_slices (run_env as w) = entry_slices w"
  "length (chans (run_env as w)) = length (chans w)"
  "length (scopes (run_env as w)) = length (scopes w)"
  by (induction as arbitrary: w; simp)+



subsection \<open>Well-formed worlds stay well-formed\<close>

lemma closes_append [simp]: "closes (xs @ ys) = closes xs @ closes ys"
  by (induction xs rule: closes.induct) simp_all

lemma wf_world_iff:
  "wf_world w \<longleftrightarrow>
     panicked w = None \<and> length (chans w) = length (listeners w)
     \<and> length (scopes w) = length (listeners w)
     \<and> (\<forall>i < length (listeners w).
          l_ctx (listeners w ! i) = i \<and> ok_of (l_fn (listeners w ! i)) = i
          \<and> release_of (l_fn (listeners w ! i)) = i
          \<and> (chans w ! i \<longrightarrow> scopes w ! i)
          \<and> count_list (closes (trace w)) i = (if chans w ! i then 1 else 0))
     \<and> (\<forall>k \<in> set (closes (trace w)). k < length (listeners w))"
  unfolding wf_world_def wf_listener_def list_all_iff by auto

lemma wf_world_panicked: "wf_world w \<Longrightarrow> panicked w = None"
  by (simp add: wf_world_def)

lemma wf_world_lengths:
  "wf_world w \<Longrightarrow> length (chans w) = length (listeners w)"
  "wf_world w \<Longrightarrow> length (scopes w) = length (listeners w)"
  by (simp_all add: wf_world_def)

lemma wf_world_init: "wf_world (init_world t e)"
  by (simp add: wf_world_iff init_world_def)

lemma wf_world_emit:
  "wf_world w \<Longrightarrow> (\<forall>k. e \<noteq> EClose k) \<Longrightarrow> wf_world (emit e w)"
  by (cases e) (simp_all add: wf_world_iff)

lemma nth_update_True: "xs ! i \<Longrightarrow> xs[s := True] ! i"
  by (cases "s < length xs") (auto simp: nth_list_update list_update_beyond)

lemma wf_world_release: "wf_world w \<Longrightarrow> wf_world (release s w)"
  by (simp add: wf_world_iff nth_update_True)

lemma wf_world_target: "wf_world w \<Longrightarrow> wf_world (w\<lparr>target := t\<rparr>)"
  by (simp add: wf_world_iff)

lemma wf_world_expectEvent: "wf_world w \<Longrightarrow> wf_world (snd (expectEvent p w))"
  by (auto simp: wf_world_iff expectEvent_def
      make_chan_def WithCancel_def ListenTarget_def nth_append less_Suc_eq)


lemma wf_world_listen:
  assumes "wf_world w" "i < length (listeners w)" "\<not> ctx_done i w"
  shows "wf_world (listen (l_fn (listeners w ! i)) ev w)"
proof -
  obtain m t' where m: "is_of (l_fn (listeners w ! i)) ev (target w) = (m, t')"
    by (cases "is_of (l_fn (listeners w ! i)) ev (target w)")
  from assms have open_i: "\<not> chans w ! i" "\<not> scopes w ! i" "i < length (chans w)" "i < length (scopes w)"
    and own: "ok_of (l_fn (listeners w ! i)) = i" "release_of (l_fn (listeners w ! i)) = i"
    by (auto simp: wf_world_iff ctx_done_def)
  show ?thesis
  proof (cases m)
    case False
    with m assms(1) show ?thesis by (simp add: listen_def wf_world_target)
  next
    case True
    with m own open_i
    have eq: "listen (l_fn (listeners w ! i)) ev w =
      release i (emit (EClose i) (w\<lparr>target := t', chans := (chans w)[i := True]\<rparr>))"
      using assms(1) by (simp add: listen_def close_chan_def wf_world_iff)
    show ?thesis unfolding eq using assms(1) open_i
      by (auto simp: wf_world_iff nth_list_update)
  qed
qed


lemma wf_world_runListeners:
  "wf_world w \<Longrightarrow> set ls \<subseteq> set (listeners w) \<Longrightarrow> wf_world (runListeners ls ev w)"
proof (induction ls arbitrary: w)
  case Nil
  then show ?case by simp
next
  case (Cons l ls)
  from Cons.prems obtain i where i: "i < length (listeners w)" "l = listeners w ! i"
    by (auto simp: in_set_conv_nth)
  with Cons.prems(1) have li: "l_ctx l = i" by (simp add: wf_world_iff)
  show ?case
  proof (cases "ctx_done (l_ctx l) w")
    case True
    with Cons show ?thesis by (simp add: wf_world_panicked)
  next
    case False
    with Cons.prems(1) i li have "wf_world (listen (l_fn l) ev w)"
      by (simp add: wf_world_listen)
    with Cons False show ?thesis by (simp add: wf_world_panicked)
  qed
qed

lemma wf_world_env_step: "wf_world (env_step a w)" if "wf_world w"
proof (cases a)
  case (Deliver ev)
  then show ?thesis using that by (simp add: env_step_def write_cur_def dispatch_def wf_world_runListeners)
next
  case (Cancel e)
  then show ?thesis using that by (simp add: env_step_def write_cur_def wf_world_iff)
next
  case (SetCur f)
  then show ?thesis using that by (simp add: env_step_def write_cur_def wf_world_target)
qed

lemma wf_world_run_env: "wf_world w \<Longrightarrow> wf_world (run_env as w)"
  by (induction as arbitrary: w) (simp_all add: wf_world_env_step)

lemma wf_world_step: "wf_world w \<Longrightarrow> wf_world (step a w)"
  by (cases a) (simp_all add: step_def wf_world_expectEvent wf_world_release wf_world_env_step)

lemma wf_world_exec: "wf_world w \<Longrightarrow> wf_world (exec as w)"
  by (induction as arbitrary: w) (simp_all add: wf_world_step)

lemma wf_world_reachable: "wf_world (exec as (init_world t e))"
  by (simp add: wf_world_exec wf_world_init)


subsection \<open>A delivery, listener by listener\<close>

lemma runListeners_panicked: "panicked w \<noteq> None \<Longrightarrow> runListeners ls ev w = w"
  by (cases ls) simp_all

lemma runListeners_append:
  "runListeners (xs @ ys) ev w = runListeners ys ev (runListeners xs ev w)"
  by (induction xs arbitrary: w) (simp_all add: runListeners_panicked)

lemma listen_chan_other: "ok_of h \<noteq> n \<Longrightarrow> chans (listen h ev w) ! n = chans w ! n"
  by (simp add: listen_def close_chan_def Let_def split: prod.splits)

lemma runListeners_chan_other:
  "\<forall>l \<in> set ls. ok_of (l_fn l) \<noteq> n \<Longrightarrow> chans (runListeners ls ev w) ! n = chans w ! n"
  by (induction ls arbitrary: w) (simp_all add: listen_chan_other)

lemma listen_scope_mono: "scopes w ! n \<Longrightarrow> scopes (listen h ev w) ! n"
  by (simp add: listen_def Let_def nth_update_True split: prod.splits)

lemma runListeners_scope_mono: "scopes w ! n \<Longrightarrow> scopes (runListeners ls ev w) ! n"
  by (induction ls arbitrary: w) (simp_all add: listen_scope_mono)

lemma listen_scope_other: "release_of h \<noteq> n \<Longrightarrow> scopes (listen h ev w) ! n = scopes w ! n"
  by (simp add: listen_def Let_def split: prod.splits)

lemma runListeners_scope_other:
  "\<forall>l \<in> set ls. release_of (l_fn l) \<noteq> n \<Longrightarrow> scopes (runListeners ls ev w) ! n = scopes w ! n"
  by (induction ls arbitrary: w) (simp_all add: listen_scope_other)

lemma wf_split_listeners:
  assumes "wf_world w" "n < length (listeners w)"
  shows "listeners w = take n (listeners w) @ listeners w ! n # drop (Suc n) (listeners w)"
    and "\<forall>l \<in> set (take n (listeners w)). ok_of (l_fn l) \<noteq> n \<and> release_of (l_fn l) \<noteq> n"
    and "\<forall>l \<in> set (drop (Suc n) (listeners w)). ok_of (l_fn l) \<noteq> n \<and> release_of (l_fn l) \<noteq> n"
    and "l_ctx (listeners w ! n) = n" "ok_of (l_fn (listeners w ! n)) = n"
    and "release_of (l_fn (listeners w ! n)) = n"
proof -
  show "listeners w = take n (listeners w) @ listeners w ! n # drop (Suc n) (listeners w)"
    using assms(2) by (simp add: id_take_nth_drop)
  show "\<forall>l \<in> set (take n (listeners w)). ok_of (l_fn l) \<noteq> n \<and> release_of (l_fn l) \<noteq> n"
  proof
    fix l assume "l \<in> set (take n (listeners w))"
    then obtain j where j: "j < n" "l = take n (listeners w) ! j"
      by (auto simp: in_set_conv_nth)
    with assms(2) have "l = listeners w ! j" "j < length (listeners w)"
      by simp_all
    with assms(1) have "ok_of (l_fn l) = j" "release_of (l_fn l) = j"
      by (simp_all add: wf_world_iff)
    with j(1) show "ok_of (l_fn l) \<noteq> n \<and> release_of (l_fn l) \<noteq> n" by simp
  qed
  show "\<forall>l \<in> set (drop (Suc n) (listeners w)). ok_of (l_fn l) \<noteq> n \<and> release_of (l_fn l) \<noteq> n"
  proof
    fix l assume "l \<in> set (drop (Suc n) (listeners w))"
    then obtain j where j: "j < length (listeners w) - Suc n" "l = drop (Suc n) (listeners w) ! j"
      by (auto simp: in_set_conv_nth)
    then have "l = listeners w ! (Suc n + j)" "Suc n + j < length (listeners w)"
      by simp_all
    with assms(1) have "ok_of (l_fn l) = Suc n + j" "release_of (l_fn l) = Suc n + j"
      by (simp_all add: wf_world_iff)
    then show "ok_of (l_fn l) \<noteq> n \<and> release_of (l_fn l) \<noteq> n" by simp
  qed
  show "l_ctx (listeners w ! n) = n" "ok_of (l_fn (listeners w ! n)) = n"
    "release_of (l_fn (listeners w ! n)) = n"
    using assms by (simp_all add: wf_world_iff)
qed

text \<open>A delivery, seen from listener number \<open>n\<close>.\<close>

lemma dispatch_at:
  fixes ev :: event
  assumes "wf_world w" "n < length (listeners w)"
  defines "wb \<equiv> runListeners (take n (listeners w)) ev w"
  shows "dispatch ev w = runListeners (drop (Suc n) (listeners w)) ev
           (if ctx_done n wb then wb else listen (l_fn (listeners w ! n)) ev wb)"
proof -
  note sp = wf_split_listeners[OF assms(1,2)]
  have wfb: "wf_world wb" unfolding wb_def
    by (rule wf_world_runListeners[OF assms(1)]) (auto dest: in_set_takeD)
  have "dispatch ev w = runListeners (listeners w ! n # drop (Suc n) (listeners w)) ev wb"
    unfolding dispatch_def wb_def by (subst sp(1)) (simp only: runListeners_append)
  then show ?thesis using wfb sp(4) by (simp add: wf_world_panicked)
qed


lemma listen_own_chan:
  "ok_of h = n \<Longrightarrow> n < length (chans w) \<Longrightarrow> \<not> chans w ! n \<Longrightarrow>
   chans (listen h ev w) ! n = fst (is_of h ev (target w))"
  by (simp add: listen_def close_chan_def Let_def split: prod.splits)

lemma listen_own_scope:
  "ok_of h = n \<Longrightarrow> release_of h = n \<Longrightarrow> n < length (chans w) \<Longrightarrow> n < length (scopes w) \<Longrightarrow>
   \<not> chans w ! n \<Longrightarrow> panicked w = None \<Longrightarrow> fst (is_of h ev (target w)) \<Longrightarrow>
   scopes (listen h ev w) ! n"
  by (auto simp: listen_def close_chan_def Let_def split: prod.splits)

lemma dispatch_closes_iff:
  fixes ev :: event
  assumes wf: "wf_world w" and n: "n < length (listeners w)" and op: "\<not> chans w ! n"
  shows "chans (dispatch ev w) ! n = matched_at n (is_of (l_fn (listeners w ! n))) ev w"
    and "matched_at n (is_of (l_fn (listeners w ! n))) ev w \<Longrightarrow> scopes (dispatch ev w) ! n"
proof -
  define wb where "wb = runListeners (take n (listeners w)) ev w"
  note sp = wf_split_listeners[OF wf n]
  have wfb: "wf_world wb" unfolding wb_def
    by (rule wf_world_runListeners[OF wf]) (auto dest: in_set_takeD)
  have cb: "\<not> chans wb ! n" unfolding wb_def using sp(2) op
    by (simp add: runListeners_chan_other)
  have len: "n < length (chans wb)" "n < length (scopes wb)"
    using wf n by (simp_all add: wb_def wf_world_lengths)
  have d: "dispatch ev w = runListeners (drop (Suc n) (listeners w)) ev
           (if ctx_done n wb then wb else listen (l_fn (listeners w ! n)) ev wb)"
    unfolding wb_def by (rule dispatch_at[OF wf n])
  have m: "matched_at n (is_of (l_fn (listeners w ! n))) ev w =
        (\<not> ctx_done n wb \<and> fst (is_of (l_fn (listeners w ! n)) ev (target wb)))"
    using wfb by (simp add: matched_at_def wb_def[symmetric] wf_world_panicked)
  show "chans (dispatch ev w) ! n = matched_at n (is_of (l_fn (listeners w ! n))) ev w"
    unfolding d m using sp(3,5) cb len
    by (simp add: runListeners_chan_other listen_own_chan)
  show "scopes (dispatch ev w) ! n" if "matched_at n (is_of (l_fn (listeners w ! n))) ev w"
    unfolding d using that[unfolded m] sp(5,6) cb len wfb
    by (simp add: runListeners_scope_mono listen_own_scope wf_world_panicked)
qed

subsection \<open>A channel is closed by a matched event only\<close>

lemma expectEvent_result:
  "expectEvent p w =
     (\<lparr>b_ok = length (chans w), b_release = length (scopes w)\<rparr>,
      emit (ERegister (length (scopes w)))
        (w\<lparr>chans := chans w @ [False], scopes := scopes w @ [False],
           listeners := listeners w @
             [\<lparr>l_ctx = length (scopes w),
               l_fn = \<lparr>is_of = p, ok_of = length (chans w), release_of = length (scopes w)\<rparr>\<rparr>]\<rparr>))"
  by (simp add: expectEvent_def make_chan_def WithCancel_def ListenTarget_def)

lemma step_listeners:
  "n < length (listeners w) \<Longrightarrow> listeners (step a w) ! n = listeners w ! n"
  "length (listeners w) \<le> length (listeners (step a w))"
  by (cases a; simp add: step_def expectEvent_result nth_append)+

lemma step_closes:
  assumes "wf_world w" "n < length (listeners w)" "\<not> chans w ! n" "chans (step a w) ! n"
  shows "\<exists>ev. a = Env (Deliver ev) \<and> matched_at n (is_of (l_fn (listeners w ! n))) ev w"
proof (cases a)
  case (Arm p)
  with assms show ?thesis
    by (simp add: step_def expectEvent_result nth_append wf_world_lengths wf_world_panicked)
next
  case (Release s)
  with assms show ?thesis by (simp add: step_def wf_world_panicked)
next
  case (Env e)
  show ?thesis
  proof (cases e)
    case (Deliver ev)
    with Env assms show ?thesis
      by (simp add: step_def env_step_def write_cur_def wf_world_panicked dispatch_closes_iff(1))
  next
    case (Cancel x)
    with Env assms show ?thesis
      by (simp add: step_def env_step_def write_cur_def wf_world_panicked split: if_splits)
  next
    case (SetCur f)
    with Env assms show ?thesis
      by (simp add: step_def env_step_def write_cur_def wf_world_panicked split: if_splits)
  qed
qed

lemma exec_closed_matched:
  assumes "wf_world w" "n < length (listeners w)" "\<not> chans w ! n" "chans (exec as w) ! n"
  shows "\<exists>as1 ev as2. as = as1 @ Env (Deliver ev) # as2
           \<and> matched_at n (is_of (l_fn (listeners w ! n))) ev (exec as1 w)"
  using assms
proof (induction as arbitrary: w)
  case Nil
  then show ?case by simp
next
  case (Cons a as)
  show ?case
  proof (cases "chans (step a w) ! n")
    case True
    with Cons.prems step_closes[of w n a] obtain ev where
      "a = Env (Deliver ev)" "matched_at n (is_of (l_fn (listeners w ! n))) ev w" by blast
    then have "a # as = [] @ Env (Deliver ev) # as
        \<and> matched_at n (is_of (l_fn (listeners w ! n))) ev (exec [] w)" by simp
    then show ?thesis by blast
  next
    case False
    have "wf_world (step a w)" "n < length (listeners (step a w))"
      using Cons.prems step_listeners(2)[of w a] by (simp_all add: wf_world_step)
    with Cons.IH[of "step a w"] False Cons.prems(4)
    obtain as1 ev as2 where "as = as1 @ Env (Deliver ev) # as2"
      "matched_at n (is_of (l_fn (listeners (step a w) ! n))) ev (exec as1 (step a w))"
      by auto
    with Cons.prems(2) have "a # as = (a # as1) @ Env (Deliver ev) # as2
      \<and> matched_at n (is_of (l_fn (listeners w ! n))) ev (exec (a # as1) w)"
      by (simp add: step_listeners(1))
    then show ?thesis by blast
  qed
qed

lemma expectLifecycleEvent_listener:
  "last (listeners (snd (expectLifecycleEvent r name w))) =
     \<lparr>l_ctx = length (scopes w),
      l_fn = \<lparr>is_of = isLifecycle r name, ok_of = length (chans w), release_of = length (scopes w)\<rparr>\<rparr>"
  by (simp add: expectLifecycleEvent_def expectEvent_result)

subsection \<open>Calls and waits in the trace\<close>

lemma filter_trace_listen:
  "(\<And>k. \<not> P (EClose k)) \<Longrightarrow> (\<And>k. \<not> P (ERelease k)) \<Longrightarrow>
   filter P (trace (listen h ev w)) = filter P (trace w)"
  by (simp add: listen_def close_chan_def Let_def split: prod.splits)

lemma filter_trace_runListeners:
  "(\<And>k. \<not> P (EClose k)) \<Longrightarrow> (\<And>k. \<not> P (ERelease k)) \<Longrightarrow>
   filter P (trace (runListeners ls ev w)) = filter P (trace w)"
  by (induction ls arbitrary: w) (simp_all add: filter_trace_listen)

lemma filter_trace_env_step:
  "(\<And>k. \<not> P (EClose k)) \<Longrightarrow> (\<And>k. \<not> P (ERelease k)) \<Longrightarrow>
   filter P (trace (env_step a w)) = filter P (trace w)"
  by (cases a) (simp_all add: env_step_def write_cur_def dispatch_def filter_trace_runListeners)

lemma filter_trace_run_env:
  "(\<And>k. \<not> P (EClose k)) \<Longrightarrow> (\<And>k. \<not> P (ERelease k)) \<Longrightarrow>
   filter P (trace (run_env as w)) = filter P (trace w)"
  by (induction as arbitrary: w) (simp_all add: filter_trace_env_step)

lemma calls_run_env [simp]: "calls (run_env as w) = calls w"
  by (simp add: calls_def filter_trace_run_env)

lemma waits_run_env [simp]: "waits (run_env as w) = waits w"
  by (simp add: waits_def filter_trace_run_env)

lemma calls_emit [simp]:
  "calls (emit (EIssue c) w) = calls w @ [EIssue c]"
  "calls (emit (ERegister k) w) = calls w @ [ERegister k]"
  "calls (emit (EWait k) w) = calls w"
  by (simp_all add: calls_def)

lemma waits_emit [simp]:
  "waits (emit (EIssue c) w) = waits w"
  "waits (emit (ERegister k) w) = waits w"
  "waits (emit (EWait k) w) = waits w @ [EWait k]"
  by (simp_all add: waits_def)

lemma calls_release [simp]: "calls (release s w) = calls w"
  by (simp add: calls_def)

lemma waits_release [simp]: "waits (release s w) = waits w"
  by (simp add: waits_def)

lemma calls_Do [simp]: "calls (Do c acts w) = calls w @ [EIssue c]"
  by (simp add: Do_def)

lemma waits_Do [simp]: "waits (Do c acts w) = waits w"
  by (simp add: Do_def)

lemma listeners_Do [simp]: "listeners (Do c acts w) = listeners w"
  by (simp add: Do_def)

lemma wf_world_Do: "wf_world w \<Longrightarrow> wf_world (Do c acts w)"
  by (simp add: Do_def wf_world_run_env wf_world_emit)

subsection \<open>Indexing the entries with an int64\<close>

lemma sint_pred:
  fixes c :: "64 word"
  assumes "0 < sint c"
  shows "sint (c - 1) = sint c - 1"
proof -
  have "sint c < 2 ^ 63" using sint_lt [of c] by simp
  with assms have "signed_take_bit 63 (sint c - 1) = sint c - 1"
    by (intro signed_take_bit_int_eq_self) simp_all
  then show ?thesis by (simp add: sint_word_ariths)
qed

lemma sint_succ:
  fixes c :: "64 word"
  assumes "0 \<le> sint c" "sint c + 1 < 2 ^ 63"
  shows "sint (c + 1) = sint c + 1"
proof -
  from assms have "signed_take_bit 63 (sint c + 1) = sint c + 1"
    by (intro signed_take_bit_int_eq_self) simp_all
  then show ?thesis by (simp add: sint_word_ariths)
qed

lemma entry_id_at_back:
  assumes "0 < sint c" "sint c \<le> int (length es) - 1"
  shows "entry_id_at es (c - 1) =
           (case es ! nat (sint c - 1) of
              None \<Rightarrow> Inl ''invalid memory address or nil pointer dereference''
            | Some e \<Rightarrow> Inr (EntryID e))"
  using assms by (simp add: entry_id_at_def sint_pred)

lemma entry_id_at_forward:
  assumes "0 \<le> sint c" "sint c < int (length es) - 1" "length es < 2 ^ 63"
  shows "entry_id_at es (c + 1) =
           (case es ! nat (sint c + 1) of
              None \<Rightarrow> Inl ''invalid memory address or nil pointer dereference''
            | Some e \<Rightarrow> Inr (EntryID e))"
proof -
  have "int (length es) < 2 ^ 63" using assms(3) by (simp flip: of_nat_less_iff)
  with assms(1,2) have "sint (c + 1) = sint c + 1" by (intro sint_succ) simp_all
  with assms(1,2) show ?thesis by (simp add: entry_id_at_def)
qed

subsection \<open>The actions\<close>

lemma scopes_Do [simp]: "length (scopes (Do c acts w)) = length (scopes w)"
  by (simp add: Do_def)

lemma chans_Do [simp]: "length (chans (Do c acts w)) = length (chans w)"
  by (simp add: Do_def)

lemma expectLifecycleLoaded_result:
  "expectLifecycleLoaded r w =
     (\<lparr>b_ok = length (chans w), b_release = length (scopes w)\<rparr>,
      snd (expectEvent (isLifecycle r ''load'') w))"
  by (simp add: expectLifecycleLoaded_def expectLifecycleEvent_def expectEvent_result)

lemma armed_fields [simp]:
  "length (scopes (snd (expectEvent p w))) = Suc (length (scopes w))"
  "length (chans (snd (expectEvent p w))) = Suc (length (chans w))"
  "calls (snd (expectEvent p w)) = calls w @ [ERegister (length (scopes w))]"
  "waits (snd (expectEvent p w)) = waits w"
  by (simp_all add: expectEvent_result calls_def waits_def)

lemma do_then_expect_err:
  assumes "wf_world w" "err reply = Some e" "b_release b < length (scopes w)"
  shows "fst (do_then_expect b c reply ws w) = Returned (Some e)"
    and "waits (snd (do_then_expect b c reply ws w)) = waits w"
    and "b_release b < length (scopes (snd (do_then_expect b c reply ws w)))"
    and "scopes (snd (do_then_expect b c reply ws w)) ! b_release b"
    and "last (trace (snd (do_then_expect b c reply ws w))) = ERelease (b_release b)"
proof -
  have "panicked (Do c (during reply) w) = None"
    using assms(1) by (simp add: wf_world_Do wf_world_panicked)
  then have eq: "do_then_expect b c reply ws w
      = (Returned (Some e), release (b_release b) (Do c (during reply) w))"
    using assms(2) by (simp add: do_then_expect_def)
  show "fst (do_then_expect b c reply ws w) = Returned (Some e)"
    "waits (snd (do_then_expect b c reply ws w)) = waits w"
    "b_release b < length (scopes (snd (do_then_expect b c reply ws w)))"
    "scopes (snd (do_then_expect b c reply ws w)) ! b_release b"
    "last (trace (snd (do_then_expect b c reply ws w))) = ERelease (b_release b)"
    using assms(3) by (simp_all add: eq)
qed

lemma armed_then_failed:
  assumes "wf_world w" "err reply = Some e"
  shows "fails_released e (length (scopes w)) w
           (do_then_expect \<lparr>b_ok = length (chans w), b_release = length (scopes w)\<rparr> c reply ws
              (snd (expectEvent p w)))"
  using do_then_expect_err [OF wf_world_expectEvent [OF assms(1), of p] assms(2),
      where b = "\<lparr>b_ok = length (chans w), b_release = length (scopes w)\<rparr>"
        and c = c and ws = ws]
  by (simp add: fails_released_def)

subsection \<open>Cancellation and the wait\<close>

lemma r_err_env_step:
  "panicked w = None \<Longrightarrow>
   r_err (env_step a w) =
     (case r_err w of Some e \<Rightarrow> Some e | None \<Rightarrow> (case a of Cancel e \<Rightarrow> Some e | _ \<Rightarrow> None))"
  by (cases a) (auto simp: env_step_def write_cur_def dispatch_def split: option.splits)

lemma r_err_run_env:
  "wf_world w \<Longrightarrow>
   r_err (run_env acts w) = (case r_err w of Some e \<Rightarrow> Some e | None \<Rightarrow> first_cancel acts)"
proof (induction acts arbitrary: w)
  case Nil
  then show ?case by (simp split: option.splits)
next
  case (Cons a acts)
  from Cons.prems have "wf_world (env_step a w)" by (rule wf_world_env_step)
  from Cons.IH [OF this] Cons.prems show ?case
    by (cases a) (simp_all add: r_err_env_step wf_world_panicked split: option.splits)
qed

lemma expect_unfold:
  assumes "wf_world w"
  shows "expect b acts pick w =
     (case select_ok_done (b_ok b) pick (run_env acts (emit (EWait (b_ok b)) w)) of
        Some res \<Rightarrow> Returned res | None \<Rightarrow> Blocked,
      run_env acts (emit (EWait (b_ok b)) w))"
proof -
  have "wf_world (run_env acts (emit (EWait (b_ok b)) w))"
    using assms by (simp add: wf_world_run_env wf_world_emit)
  then have "panicked (run_env acts (emit (EWait (b_ok b)) w)) = None"
    by (rule wf_world_panicked)
  then show ?thesis by (simp add: expect_def Let_def split: option.splits)
qed

lemmas eval_defs =
  expectLifecycleLoaded_def expectLifecycleEvent_def expectEvent_result init_world_def
  env_step_def write_cur_def dispatch_def ctx_done_def listen_def isLifecycle_def navigatedFrameID_def
  RLock_def RUnlock_def close_chan_def chan_closed_def emit_def release_def expect_def
  select_ok_done_def

lemma step_Env [simp]: "step (Env a) w = env_step a w"
  by (simp add: step_def env_step_def write_cur_def)

lemma exec_map_Env: "exec (map Env as) w = run_env as w"
  by (induction as arbitrary: w) simp_all

lemma run_env_closed_matched:
  assumes "wf_world w" "n < length (listeners w)" "\<not> chans w ! n" "chans (run_env as w) ! n"
  shows "\<exists>as1 ev as2. as = as1 @ Deliver ev # as2
           \<and> matched_at n (is_of (l_fn (listeners w ! n))) ev (run_env as1 w)"
proof -
  from exec_closed_matched [OF assms(1-3), of "map Env as"] assms(4)
  obtain bs1 ev bs2 where m: "map Env as = bs1 @ Env (Deliver ev) # bs2"
    "matched_at n (is_of (l_fn (listeners w ! n))) ev (exec bs1 w)"
    by (auto simp: exec_map_Env)
  from m(1) obtain as1 as2 where "as = as1 @ Deliver ev # as2" "bs1 = map Env as1"
    by (auto simp: map_eq_append_conv map_eq_Cons_conv)
  with m(2) show ?thesis by (auto simp: exec_map_Env)
qed

lemma exec_listeners_length: "length (listeners w) \<le> length (listeners (exec as w))"
proof (induction as arbitrary: w)
  case Nil
  then show ?case by simp
next
  case (Cons a as)
  from Cons [of "step a w"] step_listeners(2) [of w a] show ?case by simp
qed

lemma exec_listeners_nth:
  "n < length (listeners w) \<Longrightarrow> listeners (exec as w) ! n = listeners w ! n"
proof (induction as arbitrary: w)
  case Nil
  then show ?case by simp
next
  case (Cons a as)
  from Cons.prems step_listeners(2) [of w a] have "n < length (listeners (step a w))" by simp
  from Cons.IH [OF this] Cons.prems show ?case by (simp add: step_listeners(1))
qed

text \<open>The barrier of \<open>expectEvent\<close>, in any later world.\<close>

lemma armed_later:
  assumes "wf_world w1" "expectEvent p w1 = (b, w2)"
  shows "b_ok b = length (listeners w1)" "b_release b = length (listeners w1)"
    and "wf_world (exec post w2)"
    and "b_ok b < length (listeners (exec post w2))"
    and "is_of (l_fn (listeners (exec post w2) ! b_ok b)) = p"
    and "\<not> chans w2 ! b_ok b"
proof -
  from assms show b: "b_ok b = length (listeners w1)" "b_release b = length (listeners w1)"
    by (auto simp: expectEvent_result wf_world_lengths)
  from assms have wf2: "wf_world w2" using wf_world_expectEvent [of w1 p] by simp
  then show "wf_world (exec post w2)" by (rule wf_world_exec)
  from assms have n2: "b_ok b < length (listeners w2)" "is_of (l_fn (listeners w2 ! b_ok b)) = p"
    by (auto simp: expectEvent_result wf_world_lengths)
  with exec_listeners_nth [of "b_ok b" w2 post] exec_listeners_length [of w2 post]
  show "b_ok b < length (listeners (exec post w2))"
    "is_of (l_fn (listeners (exec post w2) ! b_ok b)) = p" by simp_all
  from assms show "\<not> chans w2 ! b_ok b"
    by (auto simp: expectEvent_result wf_world_lengths nth_append)
qed

lemma canceled_run_env:
  assumes "r_err w = Some e"
  shows "chans (run_env as w) = chans w" "r_err (run_env as w) = Some e"
    "panicked (run_env as w) = panicked w"
proof -
  have skip: "runListeners ls ev w' = w'" if "r_err w' = Some e" for ls ev w'
    using that by (induction ls) (simp_all add: ctx_done_def)
  have "chans (run_env as w) = chans w \<and> r_err (run_env as w) = Some e
      \<and> panicked (run_env as w) = panicked w"
    using assms
  proof (induction as arbitrary: w)
    case Nil
    then show ?case by simp
  next
    case (Cons a as)
    have "chans (env_step a w) = chans w \<and> r_err (env_step a w) = Some e
        \<and> panicked (env_step a w) = panicked w"
      using Cons.prems by (cases a) (simp_all add: env_step_def write_cur_def dispatch_def skip)
    with Cons.IH [of "env_step a w"] show ?case by simp
  qed
  then show "chans (run_env as w) = chans w" "r_err (run_env as w) = Some e"
    "panicked (run_env as w) = panicked w" by simp_all
qed

lemma run_env_append: "run_env (as @ bs) w = run_env bs (run_env as w)"
  by (induction as arbitrary: w) simp_all

lemma wf_world_count:
  assumes "wf_world w"
  shows "count_list (closes (trace w)) n = (if chan_closed n w then 1 else 0)"
proof (cases "n < length (listeners w)")
  case True
  with assms show ?thesis by (simp add: wf_world_iff chan_closed_def)
next
  case False
  with assms have "n \<notin> set (closes (trace w))" by (auto simp: wf_world_iff)
  with False assms show ?thesis
    by (simp add: chan_closed_def wf_world_lengths count_list_0_iff)
qed

lemma wf_world_dispatch: "wf_world w \<Longrightarrow> wf_world (dispatch ev w)"
  by (simp add: dispatch_def wf_world_runListeners)

lemma calls_expect [simp]: "calls (snd (expect b acts pick w)) = calls w"
  by (simp add: expect_def Let_def split: option.splits)

lemma calls_return_expect [simp]: "calls (snd (return_expect b ws w)) = calls w"
proof -
  obtain out w1 where e: "expect b (while_blocked ws) (picks_ok ws) w = (out, w1)"
    by (cases "expect b (while_blocked ws) (picks_ok ws) w")
  with calls_expect [of b "while_blocked ws" "picks_ok ws" w] have "calls w1 = calls w" by simp
  with e show ?thesis by (cases out) (simp_all add: return_expect_def)
qed

lemma calls_do_then_expect [simp]:
  "calls (snd (do_then_expect b c reply ws w)) = calls w @ [EIssue c]"
  by (simp add: do_then_expect_def Let_def split: option.splits)

lemma calls_NavigateBack:
  "calls (snd (NavigateBack ctx hist reply ws w)) = calls w @ [EIssue CmdGetNavigationHistory]
   \<or> calls (snd (NavigateBack ctx hist reply ws w))
       = calls w @ [EIssue CmdGetNavigationHistory, ERegister (length (scopes w))]
   \<or> (\<exists>entryID. calls (snd (NavigateBack ctx hist reply ws w))
       = calls w @ [EIssue CmdGetNavigationHistory, ERegister (length (scopes w)),
                    EIssue (CmdNavigateToHistoryEntry entryID)])"
  by (simp add: NavigateBack_def expectLifecycleLoaded_result Let_def
      split: option.splits sum.splits)

lemma calls_NavigateForward:
  "calls (snd (NavigateForward ctx hist reply ws w)) = calls w @ [EIssue CmdGetNavigationHistory]
   \<or> calls (snd (NavigateForward ctx hist reply ws w))
       = calls w @ [EIssue CmdGetNavigationHistory, ERegister (length (scopes w))]
   \<or> (\<exists>entryID. calls (snd (NavigateForward ctx hist reply ws w))
       = calls w @ [EIssue CmdGetNavigationHistory, ERegister (length (scopes w)),
                    EIssue (CmdNavigateToHistoryEntry entryID)])"
  by (simp add: NavigateForward_def expectLifecycleLoaded_result Let_def
      split: option.splits sum.splits)

lemma delivered_after_arm:
  assumes "wf_world w" "r_err w = None"
  shows "chan_closed (length (chans w)) (dispatch ev (snd (expectEvent p w)))
           = fst (p ev (target (runListeners (listeners w) ev (snd (expectEvent p w)))))"
proof -
  let ?w' = "snd (expectEvent p w)"
  let ?n = "length (listeners w)"
  let ?wb = "runListeners (listeners w) ev ?w'"
  have wf': "wf_world ?w'" using assms(1) by (rule wf_world_expectEvent)
  have n: "?n < length (listeners ?w')" "is_of (l_fn (listeners ?w' ! ?n)) = p"
    "take ?n (listeners ?w') = listeners w" "\<not> chans ?w' ! ?n" "\<not> scopes ?w' ! ?n"
    "length (chans w) = ?n"
    using assms(1) by (simp_all add: expectEvent_result wf_world_lengths nth_append)
  note sp = wf_split_listeners [OF wf' n(1)]
  have wfb: "wf_world ?wb"
    by (rule wf_world_runListeners [OF wf']) (auto simp: expectEvent_result)
  have "scopes ?wb ! ?n = scopes ?w' ! ?n"
    using sp(2) by (simp add: runListeners_scope_other n(3))
  moreover have "r_err ?wb = None" using assms(2) by (simp add: expectEvent_result)
  moreover have "?n < length (scopes ?wb)" using assms(1) by (simp add: wf_world_lengths)
  ultimately have live: "\<not> ctx_done ?n ?wb" using n(5) by (simp add: ctx_done_def)
  have "matched_at ?n p ev ?w' = fst (p ev (target ?wb))"
    using live wfb by (simp add: matched_at_def n(3) wf_world_panicked)
  moreover have "chan_closed ?n (dispatch ev ?w') = chans (dispatch ev ?w') ! ?n"
    using assms(1) by (simp add: chan_closed_def dispatch_def wf_world_lengths)
  ultimately show ?thesis
    using dispatch_closes_iff(1) [OF wf' n(1) n(4), of ev] n(2,6) by simp
qed

lemma expect_after_close:
  assumes "wf_world w" "r_err w = None" "chan_closed (b_ok b) w"
  shows "fst (expect b [] pick w) = Returned None"
  using assms(2,3)
  by (simp add: expect_unfold [OF assms(1)] select_ok_done_def chan_closed_def)

lemma wf_world_expect: "wf_world w \<Longrightarrow> wf_world (snd (expect b acts pick w))"
  by (simp add: expect_unfold wf_world_run_env wf_world_emit)

lemma wf_world_return_expect: "wf_world w \<Longrightarrow> wf_world (snd (return_expect b ws w))"
  using wf_world_expect [of w b "while_blocked ws" "picks_ok ws"]
  by (auto simp: return_expect_def wf_world_release split: prod.splits outcome.splits)

lemma wf_world_do_then_expect:
  "wf_world w \<Longrightarrow> wf_world (snd (do_then_expect b c reply ws w))"
  by (simp add: do_then_expect_def Let_def wf_world_Do wf_world_release wf_world_return_expect
      split: option.splits)

lemma wf_world_actions:
  assumes "wf_world w"
  shows "wf_world (snd (Navigate urlstr ctx reply ws w))"
    and "wf_world (snd (NavigateToHistoryEntry entryID ctx reply ws w))"
    and "wf_world (snd (Reload ctx reply ws w))"
    and "wf_world (snd (NavigateBack ctx hist reply ws w))"
    and "wf_world (snd (NavigateForward ctx hist reply ws w))"
proof -
  have arm: "wf_world (snd (expectEvent (isLifecycle ctx ''load'') w'))" if "wf_world w'" for w'
    using that by (rule wf_world_expectEvent)
  show "wf_world (snd (Navigate urlstr ctx reply ws w))"
    "wf_world (snd (NavigateToHistoryEntry entryID ctx reply ws w))"
    "wf_world (snd (Reload ctx reply ws w))"
    using assms
    by (simp_all add: Navigate_def NavigateToHistoryEntry_def Reload_def
        expectLifecycleLoaded_result wf_world_do_then_expect arm)
  show "wf_world (snd (NavigateBack ctx hist reply ws w))"
    "wf_world (snd (NavigateForward ctx hist reply ws w))"
    using assms
    by (simp_all add: NavigateBack_def NavigateForward_def Let_def
        expectLifecycleLoaded_result wf_world_do_then_expect arm wf_world_Do wf_world_release
        split: option.splits sum.splits)
qed

subsection \<open>A navigation, end to end\<close>

text \<open>
  The matching event arrives while the command is in flight: the wait returns nil at once,
  and the listener context has been canceled by the listener and again by the deferred
  call. An event of another frame leaves the wait blocked. With no current frame, every
  \<open>load\<close> event that is evaluated leaves one more read hold on the lock.
\<close>

lemma Navigate_event_before_wait:
  "fst (Navigate ''https://example.org'' \<lparr>executor = TargetExecutor\<rparr>
     \<lparr>during = [Deliver (Lifecycle \<lparr>FrameID = ''A'', LoaderID = '''', Name = ''load''\<rparr>)],
      err = None\<rparr>
     \<lparr>while_blocked = [], picks_ok = True\<rparr>
     (init_world \<lparr>cur = Some \<lparr>ID = ''A''\<rparr>, curMu = 0\<rparr> None)) = Returned None"
  "trace (snd (Navigate ''https://example.org'' \<lparr>executor = TargetExecutor\<rparr>
     \<lparr>during = [Deliver (Lifecycle \<lparr>FrameID = ''A'', LoaderID = '''', Name = ''load''\<rparr>)],
      err = None\<rparr>
     \<lparr>while_blocked = [], picks_ok = True\<rparr>
     (init_world \<lparr>cur = Some \<lparr>ID = ''A''\<rparr>, curMu = 0\<rparr> None)))
   = [ERegister 0, EIssue (CmdNavigate ''https://example.org''), EClose 0, ERelease 0,
      EWait 0, ERelease 0]"
  by (simp_all add: Navigate_def do_then_expect_def return_expect_def Do_def eval_defs)

lemma Navigate_other_frame_blocks:
  "fst (Navigate ''https://example.org'' \<lparr>executor = TargetExecutor\<rparr>
     \<lparr>during = [], err = None\<rparr>
     \<lparr>while_blocked = [Deliver (Lifecycle \<lparr>FrameID = ''B'', LoaderID = '''', Name = ''load''\<rparr>)],
      picks_ok = True\<rparr>
     (init_world \<lparr>cur = Some \<lparr>ID = ''A''\<rparr>, curMu = 0\<rparr> None)) = Blocked"
  by (simp add: Navigate_def do_then_expect_def return_expect_def Do_def eval_defs)

lemma Navigate_nil_frame_leaks:
  "curMu (target (snd (Navigate ''https://example.org'' \<lparr>executor = TargetExecutor\<rparr>
     \<lparr>during = [], err = None\<rparr>
     \<lparr>while_blocked = [Deliver (Lifecycle \<lparr>FrameID = ''B'', LoaderID = '''', Name = ''load''\<rparr>),
        Deliver (Lifecycle \<lparr>FrameID = ''B'', LoaderID = '''', Name = ''load''\<rparr>)],
      picks_ok = True\<rparr>
     (init_world \<lparr>cur = None, curMu = 0\<rparr> None)))) = 2"
  by (simp add: Navigate_def do_then_expect_def return_expect_def Do_def eval_defs)

section \<open>The claims\<close>

text \<open>
  C1. The claim: the frame identity a barrier correlates events with is read once, when
  the barrier is armed, and every evaluation of its predicate compares the event's frame
  identifier with that value. The code does not do this. A barrier is armed while the
  current frame is \<open>A\<close>. Evaluated when the current frame is \<open>B\<close>, its predicate is
  false of a \<open>load\<close> event of frame \<open>A\<close> and true of a \<open>load\<close> event of frame
  \<open>B\<close>; and in a run in which the current frame becomes \<open>B\<close> after the barrier was
  armed, the delivery of the first event leaves the channel open and the delivery of the
  second closes it.
\<close>

theorem frame_identity_fixed_at_arm_time_counterexample:
  "fst (expectLifecycleEvent \<lparr>executor = TargetExecutor\<rparr> ''load''
          (init_world \<lparr>cur = Some \<lparr>ID = ''A''\<rparr>, curMu = 0\<rparr> None))
     = \<lparr>b_ok = 0, b_release = 0\<rparr>
   \<and> fst (navigatedFrameID \<lparr>executor = TargetExecutor\<rparr> \<lparr>cur = Some \<lparr>ID = ''A''\<rparr>, curMu = 0\<rparr>)
     = ''A''
   \<and> \<not> fst (is_of (l_fn (last (listeners
          (snd (expectLifecycleEvent \<lparr>executor = TargetExecutor\<rparr> ''load''
                 (init_world \<lparr>cur = Some \<lparr>ID = ''A''\<rparr>, curMu = 0\<rparr> None))))))
          (Lifecycle \<lparr>FrameID = ''A'', LoaderID = '''', Name = ''load''\<rparr>)
          \<lparr>cur = Some \<lparr>ID = ''B''\<rparr>, curMu = 0\<rparr>)
   \<and> fst (is_of (l_fn (last (listeners
          (snd (expectLifecycleEvent \<lparr>executor = TargetExecutor\<rparr> ''load''
                 (init_world \<lparr>cur = Some \<lparr>ID = ''A''\<rparr>, curMu = 0\<rparr> None))))))
          (Lifecycle \<lparr>FrameID = ''B'', LoaderID = '''', Name = ''load''\<rparr>)
          \<lparr>cur = Some \<lparr>ID = ''B''\<rparr>, curMu = 0\<rparr>)
   \<and> \<not> chan_closed 0
        (run_env [SetCur (Some \<lparr>ID = ''B''\<rparr>),
                  Deliver (Lifecycle \<lparr>FrameID = ''A'', LoaderID = '''', Name = ''load''\<rparr>)]
          (snd (expectLifecycleEvent \<lparr>executor = TargetExecutor\<rparr> ''load''
                 (init_world \<lparr>cur = Some \<lparr>ID = ''A''\<rparr>, curMu = 0\<rparr> None))))
   \<and> chan_closed 0
        (run_env [SetCur (Some \<lparr>ID = ''B''\<rparr>),
                  Deliver (Lifecycle \<lparr>FrameID = ''B'', LoaderID = '''', Name = ''load''\<rparr>)]
          (snd (expectLifecycleEvent \<lparr>executor = TargetExecutor\<rparr> ''load''
                 (init_world \<lparr>cur = Some \<lparr>ID = ''A''\<rparr>, curMu = 0\<rparr> None))))"
  by (simp add: expectLifecycleEvent_def eval_defs)

text \<open>
  C1, as the code has it: the predicate a barrier of \<open>expectLifecycleEvent\<close> registers
  calls \<open>navigatedFrameID\<close> at each evaluation, so an event is compared with the frame
  identity of the target state \<open>t\<close> in which it is evaluated, whatever the world \<open>w\<close>
  was in which the barrier was armed.
\<close>

theorem frame_identity_read_at_each_evaluation:
  "fst (is_of (l_fn (last (listeners (snd (expectLifecycleEvent r name w))))) (Lifecycle e) t)
     = (Name e = name \<and> FrameID e = fst (navigatedFrameID r t))"
  by (simp add: expectLifecycleEvent_listener isLifecycle_def split: prod.splits)

text \<open>
  C2. \<open>expectEvent\<close> returns with its listener registered on the bus, as the last
  listener, and the registration is the one effect it adds. In a well-formed world with a
  live governing context, an event delivered right after \<open>expectEvent\<close> returns closes
  the barrier's channel exactly when the predicate holds of it where the bus reaches the
  listener, and \<open>expect\<close> then returns nil. After any run \<open>post\<close> that leaves the
  channel open, a delivered event closes it exactly when the bus reaches the listener
  while it is subscribed and the predicate holds. Every navigation action registers its
  listener before it issues its triggering command: the calls an action adds are the
  registration followed by the command; \<open>NavigateBack\<close> and \<open>NavigateForward\<close>
  query the history first and then stop, or register, or register and then navigate.
\<close>

theorem listener_registered_before_command:
  "listeners (snd (expectEvent p w))
     = listeners w @ [\<lparr>l_ctx = b_release (fst (expectEvent p w)),
                       l_fn = \<lparr>is_of = p, ok_of = b_ok (fst (expectEvent p w)),
                               release_of = b_release (fst (expectEvent p w))\<rparr>\<rparr>]
   \<and> trace (snd (expectEvent p w)) = trace w @ [ERegister (b_release (fst (expectEvent p w)))]
   \<and> (wf_world w \<and> r_err w = None \<longrightarrow>
        chan_closed (b_ok (fst (expectEvent p w))) (dispatch ev (snd (expectEvent p w)))
          = fst (p ev (target (runListeners (listeners w) ev (snd (expectEvent p w)))))
        \<and> (chan_closed (b_ok (fst (expectEvent p w))) (dispatch ev (snd (expectEvent p w))) \<longrightarrow>
             fst (expect (fst (expectEvent p w)) [] pick (dispatch ev (snd (expectEvent p w))))
               = Returned None))
   \<and> (wf_world w
        \<and> \<not> chan_closed (b_ok (fst (expectEvent p w))) (exec post (snd (expectEvent p w))) \<longrightarrow>
        chan_closed (b_ok (fst (expectEvent p w))) (dispatch ev' (exec post (snd (expectEvent p w))))
          = matched_at (b_ok (fst (expectEvent p w))) p ev' (exec post (snd (expectEvent p w))))
   \<and> calls (snd (Navigate urlstr ctx reply ws w))
       = calls w @ [ERegister (length (scopes w)), EIssue (CmdNavigate urlstr)]
   \<and> calls (snd (NavigateToHistoryEntry entryID ctx reply ws w))
       = calls w @ [ERegister (length (scopes w)), EIssue (CmdNavigateToHistoryEntry entryID)]
   \<and> calls (snd (Reload ctx reply ws w))
       = calls w @ [ERegister (length (scopes w)), EIssue CmdReload]
   \<and> (calls (snd (NavigateBack ctx hist reply ws w))
         = calls w @ [EIssue CmdGetNavigationHistory]
       \<or> calls (snd (NavigateBack ctx hist reply ws w))
         = calls w @ [EIssue CmdGetNavigationHistory, ERegister (length (scopes w))]
       \<or> (\<exists>entryID. calls (snd (NavigateBack ctx hist reply ws w))
         = calls w @ [EIssue CmdGetNavigationHistory, ERegister (length (scopes w)),
                      EIssue (CmdNavigateToHistoryEntry entryID)]))
   \<and> (calls (snd (NavigateForward ctx hist reply ws w))
         = calls w @ [EIssue CmdGetNavigationHistory]
       \<or> calls (snd (NavigateForward ctx hist reply ws w))
         = calls w @ [EIssue CmdGetNavigationHistory, ERegister (length (scopes w))]
       \<or> (\<exists>entryID. calls (snd (NavigateForward ctx hist reply ws w))
         = calls w @ [EIssue CmdGetNavigationHistory, ERegister (length (scopes w)),
                      EIssue (CmdNavigateToHistoryEntry entryID)]))"
proof -
  have obs: "chan_closed (b_ok (fst (expectEvent p w))) (dispatch ev (snd (expectEvent p w)))
          = fst (p ev (target (runListeners (listeners w) ev (snd (expectEvent p w)))))
        \<and> (chan_closed (b_ok (fst (expectEvent p w))) (dispatch ev (snd (expectEvent p w))) \<longrightarrow>
             fst (expect (fst (expectEvent p w)) [] pick (dispatch ev (snd (expectEvent p w))))
               = Returned None)"
    if "wf_world w" "r_err w = None"
  proof -
    have "wf_world (dispatch ev (snd (expectEvent p w)))"
      using that(1) by (simp add: wf_world_dispatch wf_world_expectEvent)
    moreover have "r_err (dispatch ev (snd (expectEvent p w))) = None"
      using that(2) by (simp add: dispatch_def expectEvent_result)
    ultimately show ?thesis
      using delivered_after_arm [OF that, of ev p] expect_after_close
      by (simp add: expectEvent_result)
  qed
  have later: "chan_closed (b_ok (fst (expectEvent p w)))
            (dispatch ev' (exec post (snd (expectEvent p w))))
          = matched_at (b_ok (fst (expectEvent p w))) p ev' (exec post (snd (expectEvent p w)))"
    if "wf_world w"
      "\<not> chan_closed (b_ok (fst (expectEvent p w))) (exec post (snd (expectEvent p w)))"
  proof -
    let ?b = "fst (expectEvent p w)" and ?w3 = "exec post (snd (expectEvent p w))"
    note a = armed_later [OF that(1), of p ?b "snd (expectEvent p w)", simplified]
    have len: "length (chans ?w3) = length (listeners ?w3)"
      using a(3) [of post] by (rule wf_world_lengths)
    with that(2) a(4) [of post] have op: "\<not> chans ?w3 ! b_ok ?b"
      by (simp add: chan_closed_def)
    from dispatch_closes_iff(1) [OF a(3) [of post] a(4) [of post] op, of ev'] a(5) [of post]
      a(4) [of post] len
    show ?thesis by (simp add: chan_closed_def dispatch_def)
  qed
  have "calls (snd (Navigate urlstr ctx reply ws w))
       = calls w @ [ERegister (length (scopes w)), EIssue (CmdNavigate urlstr)]"
    by (simp add: Navigate_def expectLifecycleLoaded_result)
  moreover have "calls (snd (NavigateToHistoryEntry entryID ctx reply ws w))
       = calls w @ [ERegister (length (scopes w)), EIssue (CmdNavigateToHistoryEntry entryID)]"
    by (simp add: NavigateToHistoryEntry_def expectLifecycleLoaded_result)
  moreover have "calls (snd (Reload ctx reply ws w))
       = calls w @ [ERegister (length (scopes w)), EIssue CmdReload]"
    by (simp add: Reload_def expectLifecycleLoaded_result)
  moreover note calls_NavigateBack [of ctx hist reply ws w]
    calls_NavigateForward [of ctx hist reply ws w]
  ultimately show ?thesis using obs later by (simp add: expectEvent_result)
qed

theorem listener_registered_before_command_witness:
  "chan_closed 0
     (dispatch (Lifecycle \<lparr>FrameID = ''A'', LoaderID = '''', Name = ''load''\<rparr>)
        (snd (expectEvent (isLifecycle \<lparr>executor = TargetExecutor\<rparr> ''load'')
               (init_world \<lparr>cur = Some \<lparr>ID = ''A''\<rparr>, curMu = 0\<rparr> None))))
   \<and> fst (expect \<lparr>b_ok = 0, b_release = 0\<rparr> [] True
        (dispatch (Lifecycle \<lparr>FrameID = ''A'', LoaderID = '''', Name = ''load''\<rparr>)
          (snd (expectEvent (isLifecycle \<lparr>executor = TargetExecutor\<rparr> ''load'')
                 (init_world \<lparr>cur = Some \<lparr>ID = ''A''\<rparr>, curMu = 0\<rparr> None)))))
       = Returned None
   \<and> matched_at 0 (isLifecycle \<lparr>executor = TargetExecutor\<rparr> ''load'')
        (Lifecycle \<lparr>FrameID = ''A'', LoaderID = '''', Name = ''load''\<rparr>)
        (snd (expectEvent (isLifecycle \<lparr>executor = TargetExecutor\<rparr> ''load'')
               (init_world \<lparr>cur = Some \<lparr>ID = ''A''\<rparr>, curMu = 0\<rparr> None)))
   \<and> calls (snd (Navigate ''https://example.org'' \<lparr>executor = TargetExecutor\<rparr>
        \<lparr>during = [], err = None\<rparr> \<lparr>while_blocked = [], picks_ok = True\<rparr>
        (init_world \<lparr>cur = Some \<lparr>ID = ''A''\<rparr>, curMu = 0\<rparr> None)))
       = [ERegister 0, EIssue (CmdNavigate ''https://example.org'')]"
proof -
  let ?p = "isLifecycle \<lparr>executor = TargetExecutor\<rparr> ''load''"
  let ?w = "init_world \<lparr>cur = Some \<lparr>ID = ''A''\<rparr>, curMu = 0\<rparr> None"
  let ?ev = "Lifecycle \<lparr>FrameID = ''A'', LoaderID = '''', Name = ''load''\<rparr>"
  have h: "r_err ?w = None"
    "fst (?p ?ev (target (runListeners (listeners ?w) ?ev (snd (expectEvent ?p ?w)))))"
    "fst (expectEvent ?p ?w) = \<lparr>b_ok = 0, b_release = 0\<rparr>"
    "calls ?w = []" "length (scopes ?w) = 0"
    by (simp_all add: calls_def eval_defs)
  have wf: "wf_world ?w" by (rule wf_world_init)
  have op: "\<not> chan_closed (b_ok (fst (expectEvent ?p ?w))) (exec [] (snd (expectEvent ?p ?w)))"
    by (simp add: eval_defs)
  from listener_registered_before_command
    [where p = ?p and w = ?w and ev = ?ev and pick = True and urlstr = "''https://example.org''"
      and ctx = "\<lparr>executor = TargetExecutor\<rparr>" and reply = "\<lparr>during = [], err = None\<rparr>"
      and ws = "\<lparr>while_blocked = [], picks_ok = True\<rparr>" and post = "[]" and ev' = ?ev
      and entryID = 0
      and hist = "\<lparr>during = [], err = None, currentIndex = 0, entries = []\<rparr>"]
    h wf op
  show ?thesis by auto
qed

text \<open>
  C3. A barrier is armed with predicate \<open>p\<close> in a well-formed world; \<open>post\<close> is what
  happens until \<open>expect\<close> is called and \<open>acts\<close> what happens while it blocks. If
  \<open>expect\<close> returns nil, then some event was delivered, before the call or during it,
  for which the bus reached the barrier's listener while it was subscribed and \<open>p\<close>
  returned true. If at some moment of the wait the governing context has the termination
  error \<open>e\<close> and the channel is not closed, \<open>expect\<close> returns exactly \<open>e\<close>.
\<close>

theorem expect_nil_only_after_match:
  assumes "wf_world w1" and "expectEvent p w1 = (b, w2)" and "w3 = exec post w2"
  shows "(fst (expect b acts pick w3) = Returned None \<longrightarrow>
            (\<exists>as1 ev as2. post = as1 @ Env (Deliver ev) # as2
                \<and> matched_at (b_ok b) p ev (exec as1 w2))
            \<or> (\<exists>as1 ev as2. acts = as1 @ Deliver ev # as2
                \<and> matched_at (b_ok b) p ev (run_env as1 (emit (EWait (b_ok b)) w3))))
       \<and> (acts = as1 @ as2
            \<and> r_err (run_env as1 (emit (EWait (b_ok b)) w3)) = Some e
            \<and> \<not> chan_closed (b_ok b) (run_env as1 (emit (EWait (b_ok b)) w3)) \<longrightarrow>
          fst (expect b acts pick w3) = Returned (Some e))"
proof -
  note a = armed_later [OF assms(1,2)]
  let ?n = "b_ok b"
  let ?w3 = "emit (EWait ?n) w3"
  have wf3: "wf_world w3" unfolding assms(3) by (rule a(3))
  then have wf3': "wf_world ?w3" by (simp add: wf_world_emit)
  have n3: "?n < length (listeners w3)" "is_of (l_fn (listeners w3 ! ?n)) = p"
    unfolding assms(3) by (rule a(4), rule a(5))
  have wf2: "wf_world w2" using a(3) [of "[]"] by simp
  have n2: "?n < length (listeners w2)" "is_of (l_fn (listeners w2 ! ?n)) = p"
    using a(4) [of "[]"] a(5) [of "[]"] by simp_all
  have A: "(\<exists>as1 ev as2. post = as1 @ Env (Deliver ev) # as2
                \<and> matched_at ?n p ev (exec as1 w2))
            \<or> (\<exists>as1 ev as2. acts = as1 @ Deliver ev # as2
                \<and> matched_at ?n p ev (run_env as1 ?w3))"
    if r: "fst (expect b acts pick w3) = Returned None"
  proof -
    from r have closed: "chans (run_env acts ?w3) ! ?n"
      by (auto simp: expect_unfold [OF wf3] select_ok_done_def chan_closed_def
          split: option.splits if_splits)
    show ?thesis
    proof (cases "chans w3 ! ?n")
      case True
      with exec_closed_matched [OF wf2 n2(1) a(6), of post] n2(2) assms(3)
      show ?thesis by simp
    next
      case False
      with run_env_closed_matched [OF wf3', of ?n acts] n3 closed
      show ?thesis by simp
    qed
  qed
  have B: "fst (expect b acts pick w3) = Returned (Some e)"
    if "acts = as1 @ as2" "r_err (run_env as1 ?w3) = Some e"
      "\<not> chan_closed ?n (run_env as1 ?w3)"
    using that canceled_run_env [of "run_env as1 ?w3" e as2]
    by (simp add: expect_unfold [OF wf3] run_env_append select_ok_done_def chan_closed_def)
  from A B show ?thesis by blast
qed

theorem expect_nil_only_after_match_witness:
  "fst (expect \<lparr>b_ok = 0, b_release = 0\<rparr>
          [Deliver (Lifecycle \<lparr>FrameID = ''A'', LoaderID = '''', Name = ''load''\<rparr>)] True
          (snd (expectEvent (isLifecycle \<lparr>executor = TargetExecutor\<rparr> ''load'')
                 (init_world \<lparr>cur = Some \<lparr>ID = ''A''\<rparr>, curMu = 0\<rparr> None))))
     = Returned None
   \<and> (\<exists>as1 ev as2.
         [Deliver (Lifecycle \<lparr>FrameID = ''A'', LoaderID = '''', Name = ''load''\<rparr>)]
           = as1 @ Deliver ev # as2
         \<and> matched_at 0 (isLifecycle \<lparr>executor = TargetExecutor\<rparr> ''load'') ev
             (run_env as1 (emit (EWait 0)
               (snd (expectEvent (isLifecycle \<lparr>executor = TargetExecutor\<rparr> ''load'')
                      (init_world \<lparr>cur = Some \<lparr>ID = ''A''\<rparr>, curMu = 0\<rparr> None))))))
   \<and> fst (expect \<lparr>b_ok = 0, b_release = 0\<rparr>
          [Cancel DeadlineExceeded,
           Deliver (Lifecycle \<lparr>FrameID = ''A'', LoaderID = '''', Name = ''load''\<rparr>)] True
          (snd (expectEvent (isLifecycle \<lparr>executor = TargetExecutor\<rparr> ''load'')
                 (init_world \<lparr>cur = Some \<lparr>ID = ''A''\<rparr>, curMu = 0\<rparr> None))))
     = Returned (Some DeadlineExceeded)"
proof -
  let ?p = "isLifecycle \<lparr>executor = TargetExecutor\<rparr> ''load''"
  let ?w1 = "init_world \<lparr>cur = Some \<lparr>ID = ''A''\<rparr>, curMu = 0\<rparr> None"
  let ?ev = "Lifecycle \<lparr>FrameID = ''A'', LoaderID = '''', Name = ''load''\<rparr>"
  let ?b = "\<lparr>b_ok = 0, b_release = 0\<rparr>"
  have arm: "expectEvent ?p ?w1 = (?b, snd (expectEvent ?p ?w1))"
    by (simp add: expectEvent_result init_world_def)
  have r: "fst (expect ?b [Deliver ?ev] True (snd (expectEvent ?p ?w1))) = Returned None"
    by (simp add: eval_defs)
  have c: "r_err (run_env [Cancel DeadlineExceeded] (emit (EWait (b_ok ?b))
              (snd (expectEvent ?p ?w1)))) = Some DeadlineExceeded"
    "\<not> chan_closed (b_ok ?b) (run_env [Cancel DeadlineExceeded] (emit (EWait (b_ok ?b))
              (snd (expectEvent ?p ?w1))))"
    by (simp_all add: eval_defs)
  note t = expect_nil_only_after_match [OF wf_world_init arm refl, where post = "[]"]
  from t [where acts = "[Deliver ?ev]" and pick = True] r
    t [where acts = "[Cancel DeadlineExceeded, Deliver ?ev]" and ?as1.0 = "[Cancel DeadlineExceeded]"
        and ?as2.0 = "[Deliver ?ev]" and e = DeadlineExceeded and pick = True] c
  show ?thesis by simp
qed

text \<open>
  C4. A barrier is armed in a well-formed world and \<open>post\<close> is any run after that:
  deliveries of events, matching or not, calls of any \<open>release\<close>, cancellations, more
  barriers. The process has not panicked (a second \<open>close\<close> of a channel is a panic in
  Go), and the trace holds at most one close of the barrier's channel. When the channel
  is open and a delivered event is matched by the barrier's listener, the delivery closes
  the channel, that close is the only one, and the listener context is canceled. A call
  of \<open>release\<close> closes no channel and does not panic.
\<close>

theorem completion_signal_closed_at_most_once:
  assumes "wf_world w1" and "expectEvent p w1 = (b, w2)" and "w3 = exec post w2"
  shows "panicked w3 = None
       \<and> count_list (closes (trace w3)) (b_ok b) \<le> 1
       \<and> (\<not> chan_closed (b_ok b) w3 \<and> matched_at (b_ok b) p ev w3 \<longrightarrow>
            chan_closed (b_ok b) (dispatch ev w3)
            \<and> scopes (dispatch ev w3) ! b_release b
            \<and> count_list (closes (trace (dispatch ev w3))) (b_ok b) = 1)
       \<and> chans (release s w3) = chans w3
       \<and> panicked (release s w3) = None"
proof -
  note a = armed_later [OF assms(1,2)]
  have wf3: "wf_world w3" unfolding assms(3) by (rule a(3))
  have n3: "b_ok b < length (listeners w3)" "is_of (l_fn (listeners w3 ! b_ok b)) = p"
    unfolding assms(3) by (rule a(4), rule a(5))
  have rel: "b_release b = b_ok b" using a(1,2) by simp
  have first: "chan_closed (b_ok b) (dispatch ev w3)
            \<and> scopes (dispatch ev w3) ! b_release b
            \<and> count_list (closes (trace (dispatch ev w3))) (b_ok b) = 1"
    if "\<not> chan_closed (b_ok b) w3" "matched_at (b_ok b) p ev w3"
  proof -
    from that(1) n3(1) wf3 have op: "\<not> chans w3 ! b_ok b"
      by (simp add: chan_closed_def wf_world_lengths)
    from dispatch_closes_iff [OF wf3 n3(1) op, of ev] that(2) n3(2)
    have "chans (dispatch ev w3) ! b_ok b" "scopes (dispatch ev w3) ! b_ok b" by simp_all
    moreover from n3(1) wf3 have "b_ok b < length (chans (dispatch ev w3))"
      by (simp add: dispatch_def wf_world_lengths)
    ultimately show ?thesis
      using wf_world_count [OF wf_world_dispatch [OF wf3], of ev "b_ok b"] rel
      by (simp add: chan_closed_def)
  qed
  from wf3 have "panicked w3 = None" by (rule wf_world_panicked)
  moreover have "count_list (closes (trace w3)) (b_ok b) \<le> 1"
    by (simp add: wf_world_count [OF wf3])
  ultimately show ?thesis using first by simp
qed

theorem completion_signal_closed_at_most_once_witness:
  "panicked (exec [Env (Deliver (Lifecycle \<lparr>FrameID = ''A'', LoaderID = '''', Name = ''load''\<rparr>)),
                   Release 0,
                   Env (Deliver (Lifecycle \<lparr>FrameID = ''A'', LoaderID = '''', Name = ''load''\<rparr>)),
                   Release 0]
             (snd (expectEvent (isLifecycle \<lparr>executor = TargetExecutor\<rparr> ''load'')
                    (init_world \<lparr>cur = Some \<lparr>ID = ''A''\<rparr>, curMu = 0\<rparr> None)))) = None
   \<and> chan_closed 0
        (dispatch (Lifecycle \<lparr>FrameID = ''A'', LoaderID = '''', Name = ''load''\<rparr>)
          (snd (expectEvent (isLifecycle \<lparr>executor = TargetExecutor\<rparr> ''load'')
                 (init_world \<lparr>cur = Some \<lparr>ID = ''A''\<rparr>, curMu = 0\<rparr> None))))
   \<and> count_list (closes (trace
        (dispatch (Lifecycle \<lparr>FrameID = ''A'', LoaderID = '''', Name = ''load''\<rparr>)
          (snd (expectEvent (isLifecycle \<lparr>executor = TargetExecutor\<rparr> ''load'')
                 (init_world \<lparr>cur = Some \<lparr>ID = ''A''\<rparr>, curMu = 0\<rparr> None)))))) 0 = 1"
proof -
  let ?p = "isLifecycle \<lparr>executor = TargetExecutor\<rparr> ''load''"
  let ?w1 = "init_world \<lparr>cur = Some \<lparr>ID = ''A''\<rparr>, curMu = 0\<rparr> None"
  let ?ev = "Lifecycle \<lparr>FrameID = ''A'', LoaderID = '''', Name = ''load''\<rparr>"
  have arm: "expectEvent ?p ?w1 = (\<lparr>b_ok = 0, b_release = 0\<rparr>, snd (expectEvent ?p ?w1))"
    by (simp add: expectEvent_result init_world_def)
  have m: "\<not> chan_closed 0 (snd (expectEvent ?p ?w1))"
    "matched_at 0 ?p ?ev (snd (expectEvent ?p ?w1))"
    by (simp_all add: matched_at_def eval_defs)
  from completion_signal_closed_at_most_once [OF wf_world_init arm,
      of "exec [Env (Deliver ?ev), Release 0, Env (Deliver ?ev), Release 0]
            (snd (expectEvent ?p ?w1))"
         "[Env (Deliver ?ev), Release 0, Env (Deliver ?ev), Release 0]"]
    completion_signal_closed_at_most_once [OF wf_world_init arm,
      of "snd (expectEvent ?p ?w1)" "[]" ?ev] m
  show ?thesis by simp
qed

text \<open>
  C5. The predicate the navigation actions register is \<open>isLifecycle r ''load''\<close>; it
  returns true exactly for a lifecycle event whose name is the requested one and whose
  frame identifier is what \<open>navigatedFrameID\<close> returns when the event is evaluated:
  the identifier of the current frame, or the empty identifier when there is no current
  frame or the executor is no target. So an event with the right name and another frame
  identifier does not match.
\<close>

theorem lifecycle_predicate_matches_iff:
  "is_of (l_fn (last (listeners (snd (expectLifecycleLoaded r w))))) = isLifecycle r ''load''
   \<and> fst (isLifecycle r name i t)
       = (\<exists>e. i = Lifecycle e \<and> Name e = name \<and> FrameID e = fst (navigatedFrameID r t))
   \<and> fst (isLifecycle r name (Lifecycle e) t)
       = (Name e = name \<and> FrameID e = fst (navigatedFrameID r t))
   \<and> fst (navigatedFrameID r t)
       = (case executor r of
            OtherExecutor \<Rightarrow> ''''
          | TargetExecutor \<Rightarrow> (case cur t of None \<Rightarrow> '''' | Some frame \<Rightarrow> ID frame))"
  by (cases i)
     (auto simp: expectLifecycleLoaded_def expectLifecycleEvent_listener isLifecycle_def
        navigatedFrameID_def Let_def split: prod.splits executor.splits option.splits)

text \<open>
  C6. Once the history has been fetched without error, \<open>NavigateBack\<close> returns the
  error \<open>invalid navigation entry\<close> unless the current index is greater than 0 and at
  most the last index, and \<open>NavigateForward\<close> returns it unless the current index is
  less than the last index. In both cases the only call made is the history query: no
  navigation command is issued and no listener is registered.
\<close>

theorem NavigateBack_Forward_invalid_entry:
  assumes "wf_world w" and "err hist = None"
  shows "(\<not> (0 < sint (currentIndex hist)
             \<and> sint (currentIndex hist) \<le> int (length (entries hist)) - 1) \<longrightarrow>
            fst (NavigateBack ctx hist reply ws w)
              = Returned (Some (ErrorString ''invalid navigation entry''))
            \<and> calls (snd (NavigateBack ctx hist reply ws w))
              = calls w @ [EIssue CmdGetNavigationHistory]
            \<and> listeners (snd (NavigateBack ctx hist reply ws w)) = listeners w)
       \<and> (\<not> sint (currentIndex hist) < int (length (entries hist)) - 1 \<longrightarrow>
            fst (NavigateForward ctx hist reply ws w)
              = Returned (Some (ErrorString ''invalid navigation entry''))
            \<and> calls (snd (NavigateForward ctx hist reply ws w))
              = calls w @ [EIssue CmdGetNavigationHistory]
            \<and> listeners (snd (NavigateForward ctx hist reply ws w)) = listeners w)"
proof -
  have "panicked (Do CmdGetNavigationHistory (during hist) w) = None"
    using assms(1) by (simp add: wf_world_Do wf_world_panicked)
  with assms(2) show ?thesis
    by (auto simp: NavigateBack_def NavigateForward_def)
qed

theorem NavigateBack_Forward_invalid_entry_witness:
  "fst (NavigateBack \<lparr>executor = TargetExecutor\<rparr>
          \<lparr>during = [], err = None, currentIndex = 0,
           entries = [Some \<lparr>EntryID = 7, URL = ''about:blank'', Title = ''''\<rparr>]\<rparr>
          \<lparr>during = [], err = None\<rparr> \<lparr>while_blocked = [], picks_ok = True\<rparr>
          (init_world \<lparr>cur = None, curMu = 0\<rparr> None))
     = Returned (Some (ErrorString ''invalid navigation entry''))
   \<and> fst (NavigateForward \<lparr>executor = TargetExecutor\<rparr>
          \<lparr>during = [], err = None, currentIndex = 0,
           entries = [Some \<lparr>EntryID = 7, URL = ''about:blank'', Title = ''''\<rparr>]\<rparr>
          \<lparr>during = [], err = None\<rparr> \<lparr>while_blocked = [], picks_ok = True\<rparr>
          (init_world \<lparr>cur = None, curMu = 0\<rparr> None))
     = Returned (Some (ErrorString ''invalid navigation entry''))
   \<and> calls (snd (NavigateBack \<lparr>executor = TargetExecutor\<rparr>
          \<lparr>during = [], err = None, currentIndex = 0,
           entries = [Some \<lparr>EntryID = 7, URL = ''about:blank'', Title = ''''\<rparr>]\<rparr>
          \<lparr>during = [], err = None\<rparr> \<lparr>while_blocked = [], picks_ok = True\<rparr>
          (init_world \<lparr>cur = None, curMu = 0\<rparr> None)))
     = [EIssue CmdGetNavigationHistory]"
  using NavigateBack_Forward_invalid_entry
    [of "init_world \<lparr>cur = None, curMu = 0\<rparr> None"
        "\<lparr>during = [], err = None, currentIndex = 0,
          entries = [Some \<lparr>EntryID = 7, URL = ''about:blank'', Title = ''''\<rparr>]\<rparr>"
        "\<lparr>executor = TargetExecutor\<rparr>" "\<lparr>during = [], err = None\<rparr>"
        "\<lparr>while_blocked = [], picks_ok = True\<rparr>"]
    wf_world_init [of "\<lparr>cur = None, curMu = 0\<rparr>" None]
  by (simp add: calls_def init_world_def)

text \<open>
  C7. When the triggering command of a navigation action is answered with an error, the
  action returns that very error, begins no wait, and its last effect is the deferred
  call of \<open>release\<close>, which cancels the listener context of the barrier it armed.
  For \<open>NavigateBack\<close> and \<open>NavigateForward\<close> the triggering command is reached
  when the history query succeeds, the index is valid and the entry it selects is not a
  nil pointer (a Go slice has fewer than \<open>2 ^ 63\<close> elements).
\<close>

theorem command_error_returned_without_wait:
  assumes "wf_world w" and "err reply = Some e"
  shows "fails_released e (length (scopes w)) w (Navigate urlstr ctx reply ws w)
       \<and> fails_released e (length (scopes w)) w (NavigateToHistoryEntry entryID ctx reply ws w)
       \<and> fails_released e (length (scopes w)) w (Reload ctx reply ws w)
       \<and> (err hist = None \<and> 0 < sint (currentIndex hist)
            \<and> sint (currentIndex hist) \<le> int (length (entries hist)) - 1
            \<and> entries hist ! nat (sint (currentIndex hist) - 1) = Some en \<longrightarrow>
          fails_released e (length (scopes w)) w (NavigateBack ctx hist reply ws w))
       \<and> (err hist = None \<and> 0 \<le> sint (currentIndex hist)
            \<and> sint (currentIndex hist) < int (length (entries hist)) - 1
            \<and> length (entries hist) < 2 ^ 63
            \<and> entries hist ! nat (sint (currentIndex hist) + 1) = Some en \<longrightarrow>
          fails_released e (length (scopes w)) w (NavigateForward ctx hist reply ws w))"
proof -
  let ?w1 = "Do CmdGetNavigationHistory (during hist) w"
  have wf1: "wf_world ?w1" using assms(1) by (rule wf_world_Do)
  then have p1: "panicked ?w1 = None" by (rule wf_world_panicked)
  note a = armed_then_failed [OF assms] and a1 = armed_then_failed [OF wf1 assms(2)]
  have "fails_released e (length (scopes w)) w (Navigate urlstr ctx reply ws w)"
    using a by (simp add: Navigate_def expectLifecycleLoaded_result)
  moreover have "fails_released e (length (scopes w)) w
      (NavigateToHistoryEntry entryID ctx reply ws w)"
    using a by (simp add: NavigateToHistoryEntry_def expectLifecycleLoaded_result)
  moreover have "fails_released e (length (scopes w)) w (Reload ctx reply ws w)"
    using a by (simp add: Reload_def expectLifecycleLoaded_result)
  moreover have "fails_released e (length (scopes w)) w (NavigateBack ctx hist reply ws w)"
    if "err hist = None" "0 < sint (currentIndex hist)"
      "sint (currentIndex hist) \<le> int (length (entries hist)) - 1"
      "entries hist ! nat (sint (currentIndex hist) - 1) = Some en"
    using that p1 a1 [where p = "isLifecycle ctx ''load''" and c = "CmdNavigateToHistoryEntry (EntryID en)" and ws = ws]
    by (simp add: NavigateBack_def expectLifecycleLoaded_result entry_id_at_back
        fails_released_def)
  moreover have "fails_released e (length (scopes w)) w (NavigateForward ctx hist reply ws w)"
    if "err hist = None" "0 \<le> sint (currentIndex hist)"
      "sint (currentIndex hist) < int (length (entries hist)) - 1"
      "length (entries hist) < 2 ^ 63"
      "entries hist ! nat (sint (currentIndex hist) + 1) = Some en"
    using that p1 a1 [where p = "isLifecycle ctx ''load''" and c = "CmdNavigateToHistoryEntry (EntryID en)" and ws = ws]
    by (simp add: NavigateForward_def expectLifecycleLoaded_result entry_id_at_forward
        fails_released_def)
  ultimately show ?thesis by blast
qed

theorem command_error_returned_without_wait_witness:
  "fails_released (ErrorString ''net::ERR_ABORTED'') 0 (init_world \<lparr>cur = None, curMu = 0\<rparr> None)
     (Navigate ''https://example.org'' \<lparr>executor = TargetExecutor\<rparr>
        \<lparr>during = [], err = Some (ErrorString ''net::ERR_ABORTED'')\<rparr>
        \<lparr>while_blocked = [], picks_ok = True\<rparr> (init_world \<lparr>cur = None, curMu = 0\<rparr> None))
   \<and> fails_released (ErrorString ''net::ERR_ABORTED'') 0 (init_world \<lparr>cur = None, curMu = 0\<rparr> None)
     (NavigateBack \<lparr>executor = TargetExecutor\<rparr>
        \<lparr>during = [], err = None, currentIndex = 1,
         entries = [Some \<lparr>EntryID = 7, URL = ''about:blank'', Title = ''''\<rparr>,
                    Some \<lparr>EntryID = 8, URL = ''https://example.org'', Title = ''''\<rparr>]\<rparr>
        \<lparr>during = [], err = Some (ErrorString ''net::ERR_ABORTED'')\<rparr>
        \<lparr>while_blocked = [], picks_ok = True\<rparr> (init_world \<lparr>cur = None, curMu = 0\<rparr> None))
   \<and> fails_released (ErrorString ''net::ERR_ABORTED'') 0 (init_world \<lparr>cur = None, curMu = 0\<rparr> None)
     (NavigateForward \<lparr>executor = TargetExecutor\<rparr>
        \<lparr>during = [], err = None, currentIndex = 0,
         entries = [Some \<lparr>EntryID = 7, URL = ''about:blank'', Title = ''''\<rparr>,
                    Some \<lparr>EntryID = 8, URL = ''https://example.org'', Title = ''''\<rparr>]\<rparr>
        \<lparr>during = [], err = Some (ErrorString ''net::ERR_ABORTED'')\<rparr>
        \<lparr>while_blocked = [], picks_ok = True\<rparr> (init_world \<lparr>cur = None, curMu = 0\<rparr> None))"
proof -
  note t = command_error_returned_without_wait
    [OF wf_world_init [of "\<lparr>cur = None, curMu = 0\<rparr>" None],
     of "\<lparr>during = [], err = Some (ErrorString ''net::ERR_ABORTED'')\<rparr>"
       "ErrorString ''net::ERR_ABORTED''" _ "\<lparr>executor = TargetExecutor\<rparr>"
       "\<lparr>while_blocked = [], picks_ok = True\<rparr>"]
  have len: "length (scopes (init_world \<lparr>cur = None, curMu = 0\<rparr> None)) = 0"
    by (simp add: init_world_def)
  show ?thesis
    using t [of "''https://example.org''" 0
        "\<lparr>during = [], err = None, currentIndex = 1,
         entries = [Some \<lparr>EntryID = 7, URL = ''about:blank'', Title = ''''\<rparr>,
                    Some \<lparr>EntryID = 8, URL = ''https://example.org'', Title = ''''\<rparr>]\<rparr>"
        "\<lparr>EntryID = 7, URL = ''about:blank'', Title = ''''\<rparr>"]
      t [of "''https://example.org''" 0
        "\<lparr>during = [], err = None, currentIndex = 0,
         entries = [Some \<lparr>EntryID = 7, URL = ''about:blank'', Title = ''''\<rparr>,
                    Some \<lparr>EntryID = 8, URL = ''https://example.org'', Title = ''''\<rparr>]\<rparr>"
        "\<lparr>EntryID = 8, URL = ''https://example.org'', Title = ''''\<rparr>"]
    by (simp add: len)
qed

text \<open>
  C8. Once the governing context has a termination error \<open>e\<close>, from before the wait or
  from a cancellation while it blocks, \<open>expect\<close> returns, and with one of two
  results: nil or \<open>e\<close>. It returns nil only when the channel is closed by then; when
  the channel is closed as well, both cases of the \<open>select\<close> are ready and Go's
  choice decides between nil and \<open>e\<close>; when it is not, the result is \<open>e\<close>. The call
  never blocks in such a world.
\<close>

theorem expect_resolves_when_canceled:
  assumes "wf_world w"
    and "(case r_err w of Some e' \<Rightarrow> Some e' | None \<Rightarrow> first_cancel acts) = Some e"
  shows "(fst (expect b acts pick w) = Returned None
            \<or> fst (expect b acts pick w) = Returned (Some e))
       \<and> (fst (expect b acts pick w) = Returned None \<longrightarrow>
            chan_closed (b_ok b) (snd (expect b acts pick w)))
       \<and> (chan_closed (b_ok b) (snd (expect b acts pick w)) \<longrightarrow>
            fst (expect b acts True w) = Returned None
            \<and> fst (expect b acts False w) = Returned (Some e))
       \<and> (\<not> chan_closed (b_ok b) (snd (expect b acts pick w)) \<longrightarrow>
            fst (expect b acts pick w) = Returned (Some e))"
proof -
  have "r_err (run_env acts (emit (EWait (b_ok b)) w)) = Some e"
    using assms by (simp add: r_err_run_env wf_world_emit)
  then show ?thesis
    by (simp add: expect_unfold [OF assms(1)] select_ok_done_def)
qed

theorem expect_resolves_when_canceled_witness:
  "fst (expect \<lparr>b_ok = 0, b_release = 0\<rparr>
          [Deliver (Lifecycle \<lparr>FrameID = ''A'', LoaderID = '''', Name = ''load''\<rparr>),
           Cancel Canceled] True
          (snd (expectLifecycleLoaded \<lparr>executor = TargetExecutor\<rparr>
                 (init_world \<lparr>cur = Some \<lparr>ID = ''A''\<rparr>, curMu = 0\<rparr> None))))
     = Returned None
   \<and> fst (expect \<lparr>b_ok = 0, b_release = 0\<rparr>
          [Deliver (Lifecycle \<lparr>FrameID = ''A'', LoaderID = '''', Name = ''load''\<rparr>),
           Cancel Canceled] False
          (snd (expectLifecycleLoaded \<lparr>executor = TargetExecutor\<rparr>
                 (init_world \<lparr>cur = Some \<lparr>ID = ''A''\<rparr>, curMu = 0\<rparr> None))))
     = Returned (Some Canceled)"
proof -
  let ?w = "snd (expectLifecycleLoaded \<lparr>executor = TargetExecutor\<rparr>
                 (init_world \<lparr>cur = Some \<lparr>ID = ''A''\<rparr>, curMu = 0\<rparr> None))"
  let ?acts = "[Deliver (Lifecycle \<lparr>FrameID = ''A'', LoaderID = '''', Name = ''load''\<rparr>),
           Cancel Canceled]"
  have wf: "wf_world ?w"
    by (simp add: expectLifecycleLoaded_def expectLifecycleEvent_def wf_world_expectEvent
        wf_world_init)
  have c: "(case r_err ?w of Some e' \<Rightarrow> Some e' | None \<Rightarrow> first_cancel ?acts) = Some Canceled"
    by (simp add: eval_defs)
  have closed: "chan_closed 0 (snd (expect \<lparr>b_ok = 0, b_release = 0\<rparr> ?acts True ?w))"
    by (simp add: eval_defs)
  from expect_resolves_when_canceled [OF wf c, of "\<lparr>b_ok = 0, b_release = 0\<rparr>" True] closed
  show ?thesis by simp
qed

text \<open>
  C9. \<open>NavigationEntries\<close> panics when it is built with a nil pointer for the
  current index or for the entries. Built with two variables, its action stores the index
  and the entries that the history query returned into them and returns the query's
  error, nil when the query succeeded; the query is the only call it makes.
\<close>

theorem NavigationEntries_nil_panics_else_writes:
  "NavigationEntries None entries_ptr = Inl ''currentIndex and entries cannot be nil''
   \<and> NavigationEntries currentIndex_ptr None = Inl ''currentIndex and entries cannot be nil''
   \<and> (case NavigationEntries (Some ci) (Some en) of
         Inl msg \<Rightarrow> False
       | Inr act \<Rightarrow>
           (wf_world w \<longrightarrow>
              fst (act ctx hist w) = Returned (err hist)
              \<and> int64s (snd (act ctx hist w)) ci = Some (currentIndex hist)
              \<and> entry_slices (snd (act ctx hist w)) en = Some (entries hist)
              \<and> calls (snd (act ctx hist w)) = calls w @ [EIssue CmdGetNavigationHistory]))"
proof -
  have "panicked (Do CmdGetNavigationHistory (during hist) w) = None" if "wf_world w"
    using that by (simp add: wf_world_Do wf_world_panicked)
  moreover have "calls (w'\<lparr>int64s := a, entry_slices := b\<rparr>) = calls w'" for w' a b
    by (simp add: calls_def)
  ultimately show ?thesis
    by (cases currentIndex_ptr) (simp_all add: NavigationEntries_def Let_def)
qed

theorem NavigationEntries_nil_panics_else_writes_witness:
  "(case NavigationEntries (Some 0) (Some 0) of
      Inl msg \<Rightarrow> False
    | Inr act \<Rightarrow>
        fst (act \<lparr>executor = TargetExecutor\<rparr>
               \<lparr>during = [], err = None, currentIndex = 1,
                entries = [Some \<lparr>EntryID = 7, URL = ''about:blank'', Title = ''''\<rparr>,
                           Some \<lparr>EntryID = 8, URL = ''https://example.org'', Title = ''''\<rparr>]\<rparr>
               (init_world \<lparr>cur = None, curMu = 0\<rparr> None)) = Returned None
        \<and> int64s (snd (act \<lparr>executor = TargetExecutor\<rparr>
               \<lparr>during = [], err = None, currentIndex = 1,
                entries = [Some \<lparr>EntryID = 7, URL = ''about:blank'', Title = ''''\<rparr>,
                           Some \<lparr>EntryID = 8, URL = ''https://example.org'', Title = ''''\<rparr>]\<rparr>
               (init_world \<lparr>cur = None, curMu = 0\<rparr> None))) 0 = Some 1)
   \<and> NavigationEntries None (Some 0) = Inl ''currentIndex and entries cannot be nil''
   \<and> NavigationEntries (Some 0) None = Inl ''currentIndex and entries cannot be nil''"
  using NavigationEntries_nil_panics_else_writes
    [where entries_ptr = "Some 0" and currentIndex_ptr = "Some 0" and ci = 0 and en = 0
        and w = "init_world \<lparr>cur = None, curMu = 0\<rparr> None"
        and ctx = "\<lparr>executor = TargetExecutor\<rparr>"
        and hist = "\<lparr>during = [], err = None, currentIndex = 1,
          entries = [Some \<lparr>EntryID = 7, URL = ''about:blank'', Title = ''''\<rparr>,
                     Some \<lparr>EntryID = 8, URL = ''https://example.org'', Title = ''''\<rparr>]\<rparr>"]
    wf_world_init [of "\<lparr>cur = None, curMu = 0\<rparr>" None]
  by (simp split: sum.splits)

text \<open>
  C10. The claim: every return path of \<open>navigatedFrameID\<close> leaves the read lock of
  \<open>curMu\<close> balanced. The code at the input the claim names, a target whose current frame
  is nil: the function returns the empty identifier with one read hold more than it
  found, since the return at nav.go 198 comes before the \<open>RUnlock\<close> of line 201.
\<close>

theorem navigatedFrameID_nil_frame_keeps_read_lock:
  "navigatedFrameID \<lparr>executor = TargetExecutor\<rparr> \<lparr>cur = None, curMu = 0\<rparr>
     = ('''', \<lparr>cur = None, curMu = 1\<rparr>)"
  by (simp add: navigatedFrameID_def RLock_def)

end
